theory Spec2Isabelle
  imports Main "HOL-Library.Word" "HOL-Library.Multiset" "HOL-Library.Sublist"
begin

section \<open>Physical memory map of the kexec package\<close>

text \<open>
  The development follows the Go package \<open>kexec\<close> (the second file of
  \<^verbatim>\<open>src/cmds/core/ip/tuntap_linux.go\<close>): typed ranges of physical memory,
  the overlay \<open>Insert\<close>, the adapters that build a map from a device tree, from
  \<^verbatim>\<open>/sys/firmware/memmap\<close>, from \<^verbatim>\<open>/proc/iomem\<close> and from the memblock
  debug files, and the projection to the UEFI payload layout.

  Go's \<open>uintptr\<close>, \<open>uint\<close> and \<open>uint64\<close> are 64-bit words: \<open>+\<close> and \<open>-\<close> wrap.
  A Go \<open>string\<close> is its sequence of bytes, a \<open>char list\<close> here.
\<close>

subsection \<open>Words, and the entry of the payload\<close>

type_synonym u64 = "64 word"

text \<open>
  \<^verbatim>\<open>UEFIPayloadMemType\<close> is a \<open>uint32\<close>. The entry of the payload's memory map has
  fields named like those of the ranges; it is declared first, so that from here on the
  plain names \<open>Start\<close>, \<open>End\<close> and \<open>Type\<close> are those of the ranges and the entry's
  fields are written with the record's name.
\<close>

type_synonym UEFIPayloadMemType = "32 word"

record UEFIPayloadMemoryMapEntry =
  Start :: u64
  End :: u64
  Type :: UEFIPayloadMemType

subsection \<open>Ranges\<close>

text \<open>
  Modelled from the spec: the type \<open>Range\<close>, \<open>{start, size}\<close> for \<open>[start, start + size)\<close>
  (section 3), whose declaration is not in the sources. The adapters build it as
  \<^verbatim>\<open>Range{Start: uintptr(..), Size: uint(..)}\<close>, which gives the fields their names and
  types.
\<close>

record Range =
  Start :: u64
  Size :: u64

text \<open>
  Modelled from the spec: the exclusive end of a range, \<open>end = start + size\<close>
  (section 3 of the specification); the method \<open>Range.End\<close> is not in the sources.
\<close>

definition End :: "Range \<Rightarrow> u64" where
  "End r = Start r + Size r"

text \<open>
  Modelled from the spec: \<open>overlaps(a, b)\<close> is true iff
  \<open>a.start < b.end && b.start < a.end\<close> (section 4.1); the method is not in the
  sources.
\<close>

definition Overlaps :: "Range \<Rightarrow> Range \<Rightarrow> bool" where
  "Overlaps a b \<longleftrightarrow> Start a < End b \<and> Start b < End a"

text \<open>
  Modelled from the spec: \<open>subtract(a, b)\<close>, the method \<open>Range.Minus\<close> that \<open>Insert\<close>
  calls and that is not in the sources. The five cases are those of section 4.1, in its
  order: disjoint, \<open>b\<close> covers \<open>a\<close>, \<open>b\<close> overlaps only the head of \<open>a\<close>, only its tail,
  \<open>b\<close> strictly inside \<open>a\<close>.
\<close>

definition Minus :: "Range \<Rightarrow> Range \<Rightarrow> Range list" where
  "Minus a b =
     (if \<not> Overlaps a b then [a]
      else if Start b \<le> Start a \<and> End a \<le> End b then []
      else if Start b \<le> Start a then [\<lparr>Start = End b, Size = End a - End b\<rparr>]
      else if End a \<le> End b then [\<lparr>Start = Start a, Size = Start b - Start a\<rparr>]
      else [\<lparr>Start = Start a, Size = Start b - Start a\<rparr>,
            \<lparr>Start = End b, Size = End a - End b\<rparr>])"

text \<open>
  Modelled from the spec: \<open>RangeFromInterval(start, end)\<close>, not in the sources. Its
  callers pass the exclusive end (\<open>end + 1\<close> of an inclusive one), so that the
  specification's \<open>from_inclusive_interval(start, end_inclusive)\<close>, of size
  \<open>end_inclusive - start + 1\<close>, is \<open>RangeFromInterval start (end_inclusive + 1)\<close>.
\<close>

definition RangeFromInterval :: "u64 \<Rightarrow> u64 \<Rightarrow> Range" where
  "RangeFromInterval start end' = \<lparr>Start = start, Size = end' - start\<rparr>"

subsection \<open>Typed ranges and the memory map\<close>

text \<open>\<^verbatim>\<open>type RangeType string\<close> and the range types Linux is known to use.\<close>

type_synonym RangeType = string

definition RangeRAM :: RangeType where "RangeRAM = ''System RAM''"
definition RangeDefault :: RangeType where "RangeDefault = ''Default''"
definition RangeACPI :: RangeType where "RangeACPI = ''ACPI Tables''"
definition RangeNVS :: RangeType where "RangeNVS = ''ACPI Non-volatile Storage''"
definition RangeReserved :: RangeType where "RangeReserved = ''Reserved''"

text \<open>
  \<^verbatim>\<open>type TypedRange struct { Range; Type RangeType }\<close>: the embedded range is the
  field \<open>Range\<close>, and \<open>tr.Start\<close> in Go is \<open>Start (Range tr)\<close>.
\<close>

record TypedRange =
  Range :: Range
  Type :: RangeType

type_synonym MemoryMap = "TypedRange list"

text \<open>The sort key of \<open>MemoryMap.sort\<close>: \<^verbatim>\<open>m[i].Start < m[j].Start\<close>.\<close>

definition start_of :: "TypedRange \<Rightarrow> u64" where
  "start_of tr = Start (Range tr)"

text \<open>\<^verbatim>\<open>FilterByType\<close>: the ranges of the given type, in map order.\<close>

definition FilterByType :: "MemoryMap \<Rightarrow> RangeType \<Rightarrow> Range list" where
  "FilterByType m typ = map Range (filter (\<lambda>tr. Type tr = typ) m)"

text \<open>
  \<^verbatim>\<open>MemoryMap.sort\<close> is \<^verbatim>\<open>sort.Slice\<close> with the order \<open>Start <\<close>. The source calls
  \<^verbatim>\<open>strings.CutPrefix\<close>, so its Go is 1.20 or later, where \<^verbatim>\<open>sort.Slice\<close> sorts a slice
  of at most 12 entries by insertion, which keeps entries of equal \<open>Start\<close> in their
  order: that is the stable sort \<open>sort_key\<close>. A longer slice goes through a
  pattern-defeating quicksort, of which Go promises only that the result is a permutation
  of the slice in ascending order. What it returns there is the parameter \<open>pdq\<close> of the
  model, and \<open>sorts pdq\<close> is the promise.
\<close>

type_synonym sorter = "TypedRange list \<Rightarrow> TypedRange list"

definition sort_map :: "sorter \<Rightarrow> MemoryMap \<Rightarrow> MemoryMap" where
  "sort_map pdq m = (if length m \<le> 12 then sort_key start_of m else pdq m)"

definition sorts :: "sorter \<Rightarrow> bool" where
  "sorts pdq \<longleftrightarrow> (\<forall>m. mset (pdq m) = mset m \<and> sorted (map start_of (pdq m)))"

text \<open>
  A sorter that keeps the promise; the examples pass it where a sorter is asked for. None
  of their slices has more than 12 entries, so none consults it.
\<close>

definition stable_sort :: sorter where
  "stable_sort m = sort_key start_of m"

text \<open>
  The loop of \<open>Insert\<close>: every entry \<open>q\<close> of the map is replaced by the pieces of
  \<open>q.Range.Minus(r.Range)\<close>, each with the type of \<open>q\<close>.
\<close>

definition retype :: "TypedRange \<Rightarrow> Range \<Rightarrow> TypedRange" where
  "retype q r2 = \<lparr>Range = r2, Type = Type q\<rparr>"

fun carve :: "MemoryMap \<Rightarrow> TypedRange \<Rightarrow> MemoryMap" where
  "carve [] r = []"
| "carve (q # m) r = map (retype q) (Minus (Range q) (Range r)) @ carve m r"

definition Insert :: "sorter \<Rightarrow> MemoryMap \<Rightarrow> TypedRange \<Rightarrow> MemoryMap" where
  "Insert pdq m r = sort_map pdq (carve m r @ [r])"

subsection \<open>Strings: the functions of Go's library that the text adapters call\<close>

text \<open>
  \<^verbatim>\<open>strings.Split(s, sep)\<close> for a separator that is not empty: the pieces of \<open>s\<close>
  between the occurrences of \<open>sep\<close>, found from the left and not overlapping; \<open>n\<close>
  occurrences give \<open>n + 1\<close> pieces. (The adapters pass \<^verbatim>\<open>":"\<close>, \<^verbatim>\<open>"-"\<close> and
  \<^verbatim>\<open>".."\<close>. For the empty separator Go cuts after every UTF-8 sequence; no caller
  needs it, and the model returns the text whole.)
\<close>

function split_from :: "string \<Rightarrow> string \<Rightarrow> string \<Rightarrow> string list" where
  "split_from sep acc [] = [rev acc]"
| "split_from sep acc (c # cs) =
     (if sep \<noteq> [] \<and> prefix sep (c # cs)
      then rev acc # split_from sep [] (drop (length sep) (c # cs))
      else split_from sep (c # acc) cs)"
  by pat_completeness auto
termination
  by (relation "measure (\<lambda>(sep, acc, s). length s)") auto

definition Split :: "string \<Rightarrow> string \<Rightarrow> string list" where
  "Split s sep = split_from sep [] s"

text \<open>
  \<^verbatim>\<open>strings.TrimSpace\<close> removes leading and trailing white space as Unicode defines
  it. On the bytes of a string these are the encodings below: the six ASCII characters,
  U+0085, U+00A0, U+1680, U+2000 to U+200A, U+2028, U+2029, U+202F, U+205F and U+3000.
\<close>

definition white_space :: "string list" where
  "white_space =
     [[CHR 0x09], [CHR 0x0A], [CHR 0x0B], [CHR 0x0C], [CHR 0x0D], [CHR 0x20],
      [CHR 0xC2, CHR 0x85], [CHR 0xC2, CHR 0xA0], [CHR 0xE1, CHR 0x9A, CHR 0x80],
      [CHR 0xE2, CHR 0x80, CHR 0x80], [CHR 0xE2, CHR 0x80, CHR 0x81],
      [CHR 0xE2, CHR 0x80, CHR 0x82], [CHR 0xE2, CHR 0x80, CHR 0x83],
      [CHR 0xE2, CHR 0x80, CHR 0x84], [CHR 0xE2, CHR 0x80, CHR 0x85],
      [CHR 0xE2, CHR 0x80, CHR 0x86], [CHR 0xE2, CHR 0x80, CHR 0x87],
      [CHR 0xE2, CHR 0x80, CHR 0x88], [CHR 0xE2, CHR 0x80, CHR 0x89],
      [CHR 0xE2, CHR 0x80, CHR 0x8A], [CHR 0xE2, CHR 0x80, CHR 0xA8],
      [CHR 0xE2, CHR 0x80, CHR 0xA9], [CHR 0xE2, CHR 0x80, CHR 0xAF],
      [CHR 0xE2, CHR 0x81, CHR 0x9F], [CHR 0xE3, CHR 0x80, CHR 0x80]]"

text \<open>The number of leading bytes of \<open>s\<close> that encode one white-space character.\<close>

definition space_width :: "string list \<Rightarrow> string \<Rightarrow> nat" where
  "space_width encs s = (case find (\<lambda>p. p \<noteq> [] \<and> prefix p s) encs of None \<Rightarrow> 0 | Some p \<Rightarrow> length p)"

function trim_front :: "string list \<Rightarrow> string \<Rightarrow> string" where
  "trim_front encs [] = []"
| "trim_front encs (c # cs) =
     (if 0 < space_width encs (c # cs)
      then trim_front encs (drop (space_width encs (c # cs)) (c # cs))
      else c # cs)"
  by pat_completeness auto
termination
  by (relation "measure (\<lambda>(encs, s). length s)") auto

definition TrimSpace :: "string \<Rightarrow> string" where
  "TrimSpace s = rev (trim_front (map rev white_space) (rev (trim_front white_space s)))"

text \<open>\<^verbatim>\<open>strings.CutPrefix(s, prefix)\<close>, of which the callers keep the first result.\<close>

definition CutPrefix :: "string \<Rightarrow> string \<Rightarrow> string" where
  "CutPrefix s p = (if prefix p s then drop (length p) s else s)"

text \<open>
  \<^verbatim>\<open>strconv.ParseUint\<close> with bit size 64 (\<^verbatim>\<open>strconv.IntSize\<close> is 64 where
  \<open>uintptr\<close> is). A digit is \<open>0-9\<close> or a letter, of value ten and up, in either case;
  a digit that is not below the base, any other byte, the empty string and a value above
  \<open>2^64 - 1\<close> are errors (\<open>None\<close>). With base 0 the base follows from the prefix
  (\<open>0b\<close>, \<open>0o\<close>, \<open>0x\<close>, a bare \<open>0\<close> for octal, decimal otherwise) and underscores
  may separate digits, where \<open>underscoreOK\<close> accepts them.
\<close>

definition digit_val :: "char \<Rightarrow> nat option" where
  "digit_val c =
     (let b = (of_char c :: nat) in
      if 48 \<le> b \<and> b \<le> 57 then Some (b - 48)
      else if 97 \<le> b \<and> b \<le> 122 then Some (b - 87)
      else if 65 \<le> b \<and> b \<le> 90 then Some (b - 55)
      else None)"

fun parse_digits :: "nat \<Rightarrow> bool \<Rightarrow> nat \<Rightarrow> string \<Rightarrow> nat option" where
  "parse_digits base base0 n [] = Some n"
| "parse_digits base base0 n (c # cs) =
     (if c = CHR ''_'' \<and> base0 then parse_digits base base0 n cs
      else
        (case digit_val c of
           None \<Rightarrow> None
         | Some d \<Rightarrow>
             if base \<le> d then None
             else if 2 ^ 64 \<le> n * base + d then None
             else parse_digits base base0 (n * base + d) cs))"

definition ParseUint16 :: "string \<Rightarrow> u64 option" where
  "ParseUint16 s = (if s = [] then None else map_option of_nat (parse_digits 16 False 0 s))"

text \<open>
  \<open>underscoreOK\<close>: an underscore must follow a digit or the base prefix and be followed
  by a digit. \<open>saw\<close> is the kind of the last byte seen.
\<close>

datatype saw = SawStart | SawDigit | SawUnderscore | SawOther

fun underscore_scan :: "bool \<Rightarrow> saw \<Rightarrow> string \<Rightarrow> bool" where
  "underscore_scan hex sw [] = (sw \<noteq> SawUnderscore)"
| "underscore_scan hex sw (c # cs) =
     (let b = (of_char c :: nat) in
      if (48 \<le> b \<and> b \<le> 57) \<or> (hex \<and> ((97 \<le> b \<and> b \<le> 102) \<or> (65 \<le> b \<and> b \<le> 70)))
      then underscore_scan hex SawDigit cs
      else if c = CHR ''_'' then
        (if sw \<noteq> SawDigit then False else underscore_scan hex SawUnderscore cs)
      else if sw = SawUnderscore then False
      else underscore_scan hex SawOther cs)"

definition base_prefix :: "string \<Rightarrow> char option" where
  "base_prefix s =
     (case s of
        z # p # _ \<Rightarrow>
          if z = CHR ''0'' \<and> p \<in> set ''bBoOxX'' then Some p else None
      | _ \<Rightarrow> None)"

definition underscoreOK :: "string \<Rightarrow> bool" where
  "underscoreOK s =
     (let t = (if take 1 s = ''-'' \<or> take 1 s = ''+'' then drop 1 s else s) in
      case base_prefix t of
        Some p \<Rightarrow> underscore_scan (p = CHR ''x'' \<or> p = CHR ''X'') SawDigit (drop 2 t)
      | None \<Rightarrow> underscore_scan False SawStart t)"

definition ParseUint0 :: "string \<Rightarrow> u64 option" where
  "ParseUint0 s =
     (if s = [] then None
      else
        (let (base, digits) =
               (if take 1 s = ''0'' then
                  (case (if 3 \<le> length s then base_prefix s else None) of
                     Some p \<Rightarrow>
                       ((if p = CHR ''b'' \<or> p = CHR ''B'' then 2
                         else if p = CHR ''o'' \<or> p = CHR ''O'' then 8 else 16), drop 2 s)
                   | None \<Rightarrow> (8, drop 1 s))
                else (10, s))
         in case parse_digits base True 0 digits of
              None \<Rightarrow> None
            | Some n \<Rightarrow>
                if CHR ''_'' \<in> set digits \<and> \<not> underscoreOK s then None else Some (of_nat n)))"

subsection \<open>Errors\<close>

datatype error =
    ReaderError
  | WalkError
  | UnexpectedFile string
  | ReadFileError string
  | ParseUintError
  | PropertyError

subsection \<open>The adapter for \<^verbatim>\<open>/proc/iomem\<close>\<close>

definition rangeType :: "string \<Rightarrow> RangeType" where
  "rangeType s = (if s = ''reserved'' then RangeReserved else s)"

text \<open>
  One turn of the loop of \<open>memoryMapFromIOMem\<close> on the line \<open>b.Text()\<close>: \<open>None\<close>
  where the code says \<^verbatim>\<open>continue\<close>, otherwise the typed range it inserts.
  \<open>end + 1\<close> is computed on \<open>uint64\<close> and wraps.
\<close>

definition iomem_line :: "string \<Rightarrow> TypedRange option" where
  "iomem_line text =
     (case Split text '':'' of
        [els0, els1] \<Rightarrow>
          (let typ = TrimSpace els1 in
           case Split (TrimSpace els0) ''-'' of
             [addrs0, addrs1] \<Rightarrow>
               (case ParseUint16 addrs0 of
                  None \<Rightarrow> None
                | Some start \<Rightarrow>
                    (case ParseUint16 addrs1 of
                       None \<Rightarrow> None
                     | Some end' \<Rightarrow>
                         if start = end' then None
                         else Some \<lparr>Range = RangeFromInterval start (end' + 1),
                                    Type = rangeType typ\<rparr>))
           | _ \<Rightarrow> None)
      | _ \<Rightarrow> None)"

fun iomem_scan :: "sorter \<Rightarrow> MemoryMap \<Rightarrow> string list \<Rightarrow> MemoryMap" where
  "iomem_scan pdq mm [] = mm"
| "iomem_scan pdq mm (text # rest) =
     (case iomem_line text of
        None \<Rightarrow> iomem_scan pdq mm rest
      | Some tr \<Rightarrow> iomem_scan pdq (Insert pdq mm tr) rest)"

text \<open>
  The reader is given as the lines its scanner yields and the error the scanner ends
  with, if any (\<^verbatim>\<open>b.Err()\<close>).
\<close>

definition memoryMapFromIOMem ::
  "sorter \<Rightarrow> string list \<Rightarrow> error option \<Rightarrow> error + MemoryMap" where
  "memoryMapFromIOMem pdq lines err =
     (let mm = iomem_scan pdq [] lines in
      case err of Some e \<Rightarrow> Inl e | None \<Rightarrow> Inr mm)"

subsection \<open>The adapter for the memblock debug files\<close>

definition rangeFromMemblockLine :: "string \<Rightarrow> Range option" where
  "rangeFromMemblockLine s =
     (case Split s '':'' of
        [els0, els1] \<Rightarrow>
          (case Split (TrimSpace els1) ''..'' of
             [addrs0, addrs1] \<Rightarrow>
               (case ParseUint16 (CutPrefix addrs0 ''0x'') of
                  None \<Rightarrow> None
                | Some start \<Rightarrow>
                    (case ParseUint16 (CutPrefix addrs1 ''0x'') of
                       None \<Rightarrow> None
                     | Some end' \<Rightarrow>
                         if start = end' then None
                         else Some (RangeFromInterval start (end' + 1))))
           | _ \<Rightarrow> None)
      | _ \<Rightarrow> None)"

fun memblock_scan :: "sorter \<Rightarrow> RangeType \<Rightarrow> MemoryMap \<Rightarrow> string list \<Rightarrow> MemoryMap" where
  "memblock_scan pdq typ mm [] = mm"
| "memblock_scan pdq typ mm (text # rest) =
     (case rangeFromMemblockLine text of
        None \<Rightarrow> memblock_scan pdq typ mm rest
      | Some r \<Rightarrow> memblock_scan pdq typ (Insert pdq mm \<lparr>Range = r, Type = typ\<rparr>) rest)"

definition memoryMapFromMemblock ::
  "sorter \<Rightarrow> string list \<Rightarrow> error option \<Rightarrow> string list \<Rightarrow> error option
     \<Rightarrow> error + MemoryMap" where
  "memoryMapFromMemblock pdq memory memory_err reserved reserved_err =
     (let mm = memblock_scan pdq RangeRAM [] memory in
      case memory_err of
        Some e \<Rightarrow> Inl e
      | None \<Rightarrow>
          (let mm' = memblock_scan pdq RangeReserved mm reserved in
           case reserved_err of Some e \<Rightarrow> Inl e | None \<Rightarrow> Inr mm'))"

subsection \<open>The adapter for \<^verbatim>\<open>/sys/firmware/memmap\<close>\<close>

text \<open>
  \<^verbatim>\<open>path.Clean\<close>: empty elements and \<open>.\<close> are dropped, a \<open>..\<close> removes the element
  before it, or is dropped at the root, or is kept at the front of a relative path; the
  empty result is \<open>.\<close>. \<^verbatim>\<open>path.Dir\<close> cleans what precedes the last element;
  \<^verbatim>\<open>path.Base\<close> is the last element, trailing slashes removed.
\<close>

fun clean_elems :: "bool \<Rightarrow> string list \<Rightarrow> string list \<Rightarrow> string list" where
  "clean_elems rooted st [] = rev st"
| "clean_elems rooted st (e # es) =
     (if e = [] \<or> e = ''.'' then clean_elems rooted st es
      else if e = ''..'' then
        (case st of
           t # st' \<Rightarrow>
             if t \<noteq> ''..'' then clean_elems rooted st' es else clean_elems rooted (e # st) es
         | [] \<Rightarrow> if rooted then clean_elems rooted [] es else clean_elems rooted [e] es)
      else clean_elems rooted (e # st) es)"

fun join_slash :: "string list \<Rightarrow> string" where
  "join_slash [] = []"
| "join_slash [e] = e"
| "join_slash (e # es) = e @ CHR ''/'' # join_slash es"

definition path_Clean :: "string \<Rightarrow> string" where
  "path_Clean p =
     (let rooted = (take 1 p = ''/'');
          out = join_slash (clean_elems rooted [] (Split p ''/''))
      in if rooted then CHR ''/'' # out else if out = [] then ''.'' else out)"

definition path_Dir :: "string \<Rightarrow> string" where
  "path_Dir p = path_Clean (rev (dropWhile (\<lambda>c. c \<noteq> CHR ''/'') (rev p)))"

definition path_Base :: "string \<Rightarrow> string" where
  "path_Base p =
     (if p = [] then ''.''
      else let q = dropWhile (\<lambda>c. c = CHR ''/'') (rev p);
               b = rev (takeWhile (\<lambda>c. c \<noteq> CHR ''/'') q)
           in if b = [] then ''/'' else b)"

definition sysfsToRangeType :: "string \<rightharpoonup> RangeType" where
  "sysfsToRangeType =
     map_of [(''System RAM'', RangeRAM),
             (''Default'', RangeDefault),
             (''ACPI Tables'', RangeACPI),
             (''ACPI Non-volatile Storage'', RangeNVS),
             (''Reserved'', RangeReserved),
             (''reserved'', RangeReserved)]"

text \<open>
  The local type \<open>memRange\<close> (fields \<open>start\<close>, \<open>end\<close>, \<open>typ\<close>; both addresses
  inclusive). A key that is missing from a Go map reads as the zero value.
\<close>

record memRange =
  rstart :: u64
  rend :: u64
  rtyp :: RangeType

definition zero_memRange :: memRange where
  "zero_memRange = \<lparr>rstart = 0, rend = 0, rtyp = []\<rparr>"

text \<open>
  What \<^verbatim>\<open>filepath.Walk\<close> hands to the walker for one file or directory: the name,
  the error of the walk (\<open>err\<close>), \<open>info.IsDir()\<close>, and what \<^verbatim>\<open>os.ReadFile(name)\<close>
  returns.
\<close>

record WalkEntry =
  entry_name :: string
  entry_err :: "error option"
  entry_IsDir :: bool
  entry_ReadFile :: "error + string"

text \<open>
  The state the walker works on: the map \<open>ranges\<close> and the lines written by
  \<^verbatim>\<open>log.Printf\<close>, each the name of the file and the label it holds.
\<close>

record efi_state =
  ranges :: "string \<rightharpoonup> memRange"
  logged :: "(string \<times> string) list"

text \<open>
  The closure \<open>walker\<close>; \<^verbatim>\<open>strconv.ParseUint(data, 0, strconv.IntSize)\<close> is
  \<open>ParseUint0\<close>.
\<close>

definition walker :: "efi_state \<Rightarrow> WalkEntry \<Rightarrow> error + efi_state" where
  "walker st f =
     (case entry_err f of
        Some e \<Rightarrow> Inl e
      | None \<Rightarrow>
          if entry_IsDir f then Inr st
          else
            (let base = path_Base (entry_name f) in
             if base \<noteq> ''start'' \<and> base \<noteq> ''end'' \<and> base \<noteq> ''type''
             then Inl (UnexpectedFile (entry_name f))
             else
               (let dir = path_Dir (entry_name f) in
                case entry_ReadFile f of
                  Inl e \<Rightarrow> Inl (ReadFileError (entry_name f))
                | Inr b \<Rightarrow>
                    (let data = TrimSpace b;
                         r = (case ranges st dir of None \<Rightarrow> zero_memRange | Some r \<Rightarrow> r)
                     in if base = ''type'' then
                          (case sysfsToRangeType data of
                             None \<Rightarrow>
                               Inr (st\<lparr>ranges := (ranges st)(dir \<mapsto> r\<lparr>rtyp := RangeReserved\<rparr>),
                                       logged := logged st @ [(entry_name f, data)]\<rparr>)
                           | Some typ \<Rightarrow>
                               Inr (st\<lparr>ranges := (ranges st)(dir \<mapsto> r\<lparr>rtyp := typ\<rparr>)\<rparr>))
                        else
                          (case ParseUint0 data of
                             None \<Rightarrow> Inl ParseUintError
                           | Some v \<Rightarrow>
                               Inr (st\<lparr>ranges := (ranges st)
                                      (dir \<mapsto> (if base = ''start'' then r\<lparr>rstart := v\<rparr>
                                               else r\<lparr>rend := v\<rparr>))\<rparr>))))))"

text \<open>
  \<^verbatim>\<open>filepath.Walk\<close>, as far as this walker sees it: the entries in the order of the
  walk, which stops at the first error the walker returns. What was logged stays logged.
\<close>

fun efi_walk :: "efi_state \<Rightarrow> WalkEntry list \<Rightarrow> error option \<times> efi_state" where
  "efi_walk st [] = (None, st)"
| "efi_walk st (f # fs) =
     (case walker st f of
        Inl e \<Rightarrow> (Some e, st)
      | Inr st' \<Rightarrow> efi_walk st' fs)"

definition efi_init :: efi_state where
  "efi_init = \<lparr>ranges = Map.empty, logged = []\<rparr>"

definition typed_of_memRange :: "memRange \<Rightarrow> TypedRange" where
  "typed_of_memRange r = \<lparr>Range = RangeFromInterval (rstart r) (rend r + 1), Type = rtyp r\<rparr>"

text \<open>
  \<^verbatim>\<open>for _, r := range ranges\<close> visits the entries of a Go map in an order that the
  language leaves open. The order is the parameter \<open>order\<close>, a list of the keys;
  \<open>iteration_order\<close> says that it names every key of the map once.
\<close>

definition iteration_order :: "efi_state \<Rightarrow> string list \<Rightarrow> bool" where
  "iteration_order st order \<longleftrightarrow> distinct order \<and> set order = dom (ranges st)"

definition memoryMapFromEFI ::
  "sorter \<Rightarrow> WalkEntry list \<Rightarrow> string list \<Rightarrow> error + MemoryMap" where
  "memoryMapFromEFI pdq entries order =
     (case efi_walk efi_init entries of
        (Some e, st) \<Rightarrow> Inl e
      | (None, st) \<Rightarrow>
          Inr (sort_map pdq
                 (List.map_filter (\<lambda>dir. map_option typed_of_memRange (ranges st dir)) order)))"

text \<open>The lines \<^verbatim>\<open>log.Printf\<close> has written when the adapter returns.\<close>

definition efi_log :: "WalkEntry list \<Rightarrow> (string \<times> string) list" where
  "efi_log entries = logged (snd (efi_walk efi_init entries))"

subsection \<open>The projection to the UEFI payload\<close>

definition UEFIPayloadTypeRAM :: UEFIPayloadMemType where "UEFIPayloadTypeRAM = 1"
definition UEFIPayloadTypeDefault :: UEFIPayloadMemType where "UEFIPayloadTypeDefault = 2"
definition UEFIPayloadTypeACPI :: UEFIPayloadMemType where "UEFIPayloadTypeACPI = 3"
definition UEFIPayloadTypeNVS :: UEFIPayloadMemType where "UEFIPayloadTypeNVS = 4"
definition UEFIPayloadTypeReserved :: UEFIPayloadMemType where "UEFIPayloadTypeReserved = 5"

definition rangeTypeToUEFIPayloadMemType :: "RangeType \<rightharpoonup> UEFIPayloadMemType" where
  "rangeTypeToUEFIPayloadMemType =
     map_of [(RangeRAM, UEFIPayloadTypeRAM),
             (RangeDefault, UEFIPayloadTypeDefault),
             (RangeACPI, UEFIPayloadTypeACPI),
             (RangeNVS, UEFIPayloadTypeNVS),
             (RangeReserved, UEFIPayloadTypeReserved)]"

definition convertToUEFIPayloadMemType :: "RangeType \<Rightarrow> UEFIPayloadMemType" where
  "convertToUEFIPayloadMemType rt =
     (case rangeTypeToUEFIPayloadMemType rt of
        None \<Rightarrow> UEFIPayloadTypeReserved
      | Some mt \<Rightarrow> mt)"

definition payload_entry :: "TypedRange \<Rightarrow> UEFIPayloadMemoryMapEntry" where
  "payload_entry entry =
     \<lparr>UEFIPayloadMemoryMapEntry.Start = Start (Range entry),
      UEFIPayloadMemoryMapEntry.End = Start (Range entry) + Size (Range entry) - 1,
      UEFIPayloadMemoryMapEntry.Type = convertToUEFIPayloadMemType (Type entry)\<rparr>"

fun ToUEFIPayloadMemoryMap :: "MemoryMap \<Rightarrow> UEFIPayloadMemoryMapEntry list" where
  "ToUEFIPayloadMemoryMap [] = []"
| "ToUEFIPayloadMemoryMap (entry # m) = payload_entry entry # ToUEFIPayloadMemoryMap m"

subsection \<open>The adapter for a device tree\<close>

text \<open>
  Modelled from the spec: the properties of package \<open>dt\<close>, which is not in the sources
  (section 6: "nodes with named properties (\<open>device_type\<close>, \<open>reg\<close>)"). A property is
  given by what its two conversions return: \<open>AsString\<close> the string or an error, \<open>AsRegion\<close>
  the pair of \<open>Start\<close> and \<open>Size\<close> or an error.
\<close>

record Property =
  AsString :: "error + string"
  AsRegion :: "error + (u64 \<times> u64)"

text \<open>
  Modelled from the spec: the nodes of package \<open>dt\<close> (section 6: "a tree traversal
  primitive yielding nodes with named properties"): a name, the properties by name, and
  the children.
\<close>

datatype Node = Node (Name: string) (Properties: "(string \<times> Property) list") (Children: "Node list")




text \<open>
  Modelled from the spec: \<open>NodeByName\<close> of package \<open>dt\<close> (section 4.3: "a node named
  \<open>reserved-memory\<close> (if present)"): the first node of the name in the order of the walk.
\<close>

fun Find :: "(Node \<Rightarrow> bool) \<Rightarrow> Node \<Rightarrow> Node option"
  and FindChildren :: "(Node \<Rightarrow> bool) \<Rightarrow> Node list \<Rightarrow> Node option" where
  "Find p (Node nm ps cs) = (if p (Node nm ps cs) then Some (Node nm ps cs) else FindChildren p cs)"
| "FindChildren p [] = None"
| "FindChildren p (c # cs) = (case Find p c of Some n \<Rightarrow> Some n | None \<Rightarrow> FindChildren p cs)"






subsection \<open>The properties of a map that the statements speak of\<close>

text \<open>
  The end \<open>Start + Size\<close> of a range does not wrap around \<open>2^64\<close>; a range is proper
  when moreover it is not empty.
\<close>

definition no_wrap :: "Range \<Rightarrow> bool" where
  "no_wrap r \<longleftrightarrow> unat (Start r) + unat (Size r) < 2 ^ 64"

definition proper :: "Range \<Rightarrow> bool" where
  "proper r \<longleftrightarrow> 0 < Size r \<and> no_wrap r"

definition all_proper :: "MemoryMap \<Rightarrow> bool" where
  "all_proper m \<longleftrightarrow> list_all (\<lambda>q. proper (Range q)) m"

definition disjoint_entries :: "TypedRange \<Rightarrow> TypedRange \<Rightarrow> bool" where
  "disjoint_entries p q \<longleftrightarrow> \<not> Overlaps (Range p) (Range q)"

text \<open>
  The two invariants of a memory map: no two entries overlap (\<open>sorted_wrt\<close> asks it of
  every pair of positions), and the entries ascend by \<open>Start\<close>.
\<close>

definition map_invariant :: "MemoryMap \<Rightarrow> bool" where
  "map_invariant m \<longleftrightarrow> sorted_wrt disjoint_entries m \<and> sorted (map start_of m)"

text \<open>
  The addresses of a range: \<open>x\<close> is one of the \<open>Size r\<close> addresses that begin at
  \<open>Start r\<close>, counted on 64 bits. For a range that does not wrap these are the addresses
  from \<open>Start r\<close> up to \<open>End r\<close>, the end left out.
\<close>

definition contains :: "Range \<Rightarrow> u64 \<Rightarrow> bool" where
  "contains r x \<longleftrightarrow> x - Start r < Size r"

text \<open>No address belongs to both ranges.\<close>

definition apart :: "Range \<Rightarrow> Range \<Rightarrow> bool" where
  "apart a b \<longleftrightarrow> (\<forall>x. \<not> (contains a x \<and> contains b x))"

text \<open>
  The entry \<open>q\<close> cut in two at the start of \<open>e\<close> when that address lies strictly
  inside \<open>q\<close>, and \<open>q\<close> itself otherwise.
\<close>

definition cut_at_start :: "TypedRange \<Rightarrow> TypedRange \<Rightarrow> TypedRange list" where
  "cut_at_start e q =
     (if Start (Range q) < Start (Range e) \<and> Start (Range e) < End (Range q)
      then [\<lparr>Range = \<lparr>Start = Start (Range q), Size = Start (Range e) - Start (Range q)\<rparr>,
             Type = Type q\<rparr>,
            \<lparr>Range = \<lparr>Start = Start (Range e), Size = End (Range q) - Start (Range e)\<rparr>,
             Type = Type q\<rparr>]
      else [q])"

text \<open>The closed enumeration of range types.\<close>

definition range_types :: "RangeType list" where
  "range_types = [RangeRAM, RangeDefault, RangeACPI, RangeNVS, RangeReserved]"

text \<open>The directory and the attribute that a file of the firmware map stands for.\<close>

definition entry_key :: "WalkEntry \<Rightarrow> string \<times> string" where
  "entry_key f = (path_Dir (entry_name f), path_Base (entry_name f))"







text \<open>
  What the walker does with one entry, told apart from the state it works on: the error
  it returns for the entry, if any; the first error of a walk; and the change the entry
  makes to the map \<open>ranges\<close>.
\<close>

definition entry_error :: "WalkEntry \<Rightarrow> error option" where
  "entry_error f = (case walker efi_init f of Inl e \<Rightarrow> Some e | Inr st \<Rightarrow> None)"

fun first_error :: "WalkEntry list \<Rightarrow> error option" where
  "first_error [] = None"
| "first_error (f # fs) = (case entry_error f of Some e \<Rightarrow> Some e | None \<Rightarrow> first_error fs)"

definition set_field :: "string \<Rightarrow> string \<Rightarrow> memRange \<Rightarrow> memRange" where
  "set_field base data r =
     (if base = ''type'' then
        r\<lparr>rtyp := (case sysfsToRangeType data of None \<Rightarrow> RangeReserved | Some typ \<Rightarrow> typ)\<rparr>
      else
        (case ParseUint0 data of
           None \<Rightarrow> r
         | Some v \<Rightarrow>
             if base = ''start'' then r\<lparr>rstart := v\<rparr>
             else if base = ''end'' then r\<lparr>rend := v\<rparr> else r))"

definition record_entry :: "WalkEntry \<Rightarrow> (string \<rightharpoonup> memRange) \<Rightarrow> (string \<rightharpoonup> memRange)" where
  "record_entry f m =
     (if entry_IsDir f then m
      else
        (case entry_ReadFile f of
           Inl e \<Rightarrow> m
         | Inr b \<Rightarrow>
             m(path_Dir (entry_name f) \<mapsto>
                 set_field (path_Base (entry_name f)) (TrimSpace b)
                   (case m (path_Dir (entry_name f)) of None \<Rightarrow> zero_memRange | Some r \<Rightarrow> r))))"

text \<open>The entries of the examples: a file that is read without error, and a directory.\<close>

definition regular_file :: "string \<Rightarrow> string \<Rightarrow> WalkEntry" where
  "regular_file name data =
     \<lparr>entry_name = name, entry_err = None, entry_IsDir = False, entry_ReadFile = Inr data\<rparr>"

definition directory :: "string \<Rightarrow> WalkEntry" where
  "directory name =
     \<lparr>entry_name = name, entry_err = None, entry_IsDir = True,
      entry_ReadFile = Inl (ReadFileError name)\<rparr>"


section \<open>Ranges and the overlay insert\<close>

subsection \<open>Ranges\<close>

lemma word_lt_add_iff: "(0 < (b::u64) \<and> unat a + unat b < 2 ^ 64) \<longleftrightarrow> a < a + b"
proof -
  have la: "unat a < 2 ^ 64" and lb: "unat b < 2 ^ 64"
    using unsigned_less [of a] unsigned_less [of b] by simp_all
  have e: "unat (a + b) = (unat a + unat b) mod 2 ^ 64"
    by (simp add: unat_word_ariths)
  show ?thesis
  proof (cases "unat a + unat b < 2 ^ 64")
    case True
    then have "unat (a + b) = unat a + unat b" using e by simp
    then show ?thesis using True by (simp add: word_less_nat_alt unat_gt_0)
  next
    case False
    then have "unat (a + b) = unat a + unat b - 2 ^ 64"
      using e la lb by (simp add: mod_if)
    then show ?thesis using False la lb by (simp add: word_less_nat_alt)
  qed
qed

lemma proper_iff: "proper r \<longleftrightarrow> Start r < End r"
  using word_lt_add_iff [of "Size r" "Start r"] by (simp add: proper_def no_wrap_def End_def)

lemma no_wrap_iff: "no_wrap r \<longleftrightarrow> Start r \<le> End r"
  by (simp add: no_wrap_def End_def no_olen_add_nat)

lemma proper_le: "proper r \<Longrightarrow> Start r \<le> End r"
  by (simp add: proper_iff)

lemma proper_no_wrap: "proper r \<Longrightarrow> no_wrap r"
  by (simp add: proper_def)

text \<open>The addresses of a range that does not wrap lie between its start and its end.\<close>

lemma contains_no_wrap:
  assumes "no_wrap r"
  shows "contains r x \<longleftrightarrow> Start r \<le> x \<and> x < End r"
proof -
  have ls: "unat (Start r) < 2 ^ 64" and lx: "unat x < 2 ^ 64"
    using unsigned_less [of "Start r"] unsigned_less [of x] by simp_all
  from assms have e: "unat (End r) = unat (Start r) + unat (Size r)"
    by (simp add: no_wrap_def End_def unat_word_ariths)
  show ?thesis
  proof (cases "Start r \<le> x")
    case True
    then have "unat (x - Start r) = unat x - unat (Start r)"
      by (simp add: unat_sub)
    then show ?thesis
      using True e by (auto simp: contains_def word_less_nat_alt word_le_nat_alt)
  next
    case False
    then have "unat (x - Start r) = unat x + 2 ^ 64 - unat (Start r)"
      by (simp add: unat_sub_if_size word_le_nat_alt word_size)
    then show ?thesis
      using False assms ls lx
      by (auto simp: contains_def word_less_nat_alt word_le_nat_alt no_wrap_def)
  qed
qed

lemma not_Overlaps_apart:
  assumes "no_wrap a" "no_wrap b" "\<not> Overlaps a b"
  shows "apart a b"
  using assms by (auto simp: apart_def contains_no_wrap Overlaps_def)

lemma End_piece [simp]: "End \<lparr>Start = s, Size = e - s\<rparr> = e"
  by (simp add: End_def)

lemma Minus_cases:
  assumes "p \<in> set (Minus a b)"
  shows "(p = a \<and> \<not> Overlaps a b)
       \<or> (Overlaps a b \<and> Start p = Start a \<and> End p = Start b \<and> Start a < Start b)
       \<or> (Overlaps a b \<and> Start p = End b \<and> End p = End a \<and> End b < End a)"
  using assms by (auto simp: Minus_def split: if_splits)

lemma Minus_length: "length (Minus a b) \<le> 2"
  by (simp add: Minus_def)

lemma Minus_inside:
  assumes "p \<in> set (Minus a b)"
  shows "Start a \<le> Start p \<and> End p \<le> End a"
  using Minus_cases [OF assms] by (auto simp: Overlaps_def)

lemma Minus_proper:
  assumes "p \<in> set (Minus a b)" "Start a < End a"
  shows "Start p < End p"
  using Minus_cases [OF assms(1)] assms(2) by (auto simp: Overlaps_def)

lemma Minus_no_wrap:
  assumes "p \<in> set (Minus a b)" "no_wrap a"
  shows "no_wrap p"
  using Minus_cases [OF assms(1)] assms(2) by (auto simp: no_wrap_iff)

lemma Minus_clear:
  assumes "p \<in> set (Minus a b)"
  shows "\<not> Overlaps p b"
  using Minus_cases [OF assms] by (auto simp: Overlaps_def)

lemma Minus_pieces_apart:
  assumes "Start b \<le> End b"
  shows "sorted_wrt (\<lambda>p q. \<not> Overlaps p q) (Minus a b)"
  using assms by (auto simp: Minus_def Overlaps_def)

text \<open>
  The pieces of \<open>Minus a b\<close> hold the addresses of \<open>a\<close> that are not addresses of \<open>b\<close>,
  and no others, when neither range wraps.
\<close>

lemma Minus_contains:
  assumes "no_wrap a" "no_wrap b"
  shows "(\<exists>p\<in>set (Minus a b). contains p x) \<longleftrightarrow> contains a x \<and> \<not> contains b x"
proof -
  have "(\<exists>p\<in>set (Minus a b). contains p x)
      \<longleftrightarrow> (\<exists>p\<in>set (Minus a b). Start p \<le> x \<and> x < End p)"
    using Minus_no_wrap [OF _ assms(1)] by (auto simp: contains_no_wrap)
  also have "\<dots> \<longleftrightarrow> (Start a \<le> x \<and> x < End a) \<and> \<not> (Start b \<le> x \<and> x < End b)"
    using assms by (auto simp: Minus_def Overlaps_def no_wrap_iff)
  finally show ?thesis
    using assms by (simp add: contains_no_wrap)
qed

lemma Overlaps_sym: "Overlaps a b \<longleftrightarrow> Overlaps b a"
  by (auto simp: Overlaps_def)

lemma Overlaps_inside:
  assumes "Overlaps p q" "Start a \<le> Start p" "End p \<le> End a" "Start c \<le> Start q" "End q \<le> End c"
  shows "Overlaps a c"
  using assms by (auto simp: Overlaps_def)

subsection \<open>The sort\<close>

lemma sorts_stable_sort: "sorts stable_sort"
  by (simp add: sorts_def stable_sort_def)

lemma sort_map_mset:
  assumes "sorts pdq"
  shows "mset (sort_map pdq m) = mset m"
  using assms by (simp add: sort_map_def sorts_def)

lemma sort_map_sorted:
  assumes "sorts pdq"
  shows "sorted (map start_of (sort_map pdq m))"
  using assms by (simp add: sort_map_def sorts_def)

lemma sort_map_set:
  assumes "sorts pdq"
  shows "set (sort_map pdq m) = set m"
  using sort_map_mset [OF assms, of m] by (metis set_mset_mset)

lemma sort_map_length:
  assumes "sorts pdq"
  shows "length (sort_map pdq m) = length m"
  using sort_map_mset [OF assms, of m] by (metis size_mset)

lemma sorted_wrt_symmetric_mset:
  assumes sym: "\<And>x y. P x y \<Longrightarrow> P y x"
  shows "mset xs = mset ys \<Longrightarrow> sorted_wrt P xs \<Longrightarrow> sorted_wrt P ys"
proof (induction xs arbitrary: ys)
  case Nil
  then show ?case by simp
next
  case (Cons x xs)
  from Cons.prems(1) have "x \<in> set ys"
    by (metis list.set_intros(1) set_mset_mset)
  then obtain ys1 ys2 where ys: "ys = ys1 @ x # ys2"
    by (auto dest: split_list)
  with Cons.prems(1) have m: "mset xs = mset (ys1 @ ys2)" by simp
  then have s: "set xs = set (ys1 @ ys2)" by (rule mset_eq_setD)
  have "sorted_wrt P (ys1 @ ys2)"
    using Cons.IH [OF m] Cons.prems(2) by simp
  moreover have "\<forall>y\<in>set (ys1 @ ys2). P x y"
    using Cons.prems(2) s by simp
  ultimately show ?case
    unfolding ys using sym by (auto simp: sorted_wrt_append)
qed

subsection \<open>Insert\<close>

lemma carve_concat:
  "carve m r = concat (map (\<lambda>q. map (\<lambda>p. \<lparr>Range = p, Type = Type q\<rparr>) (Minus (Range q) (Range r))) m)"
  by (induction m) (simp_all add: retype_def)

lemma carve_set:
  "set (carve m r) = (\<Union>q\<in>set m. retype q ` set (Minus (Range q) (Range r)))"
  by (induction m) auto

lemma carve_origin:
  assumes "p \<in> set (carve m r)"
  obtains q where "q \<in> set m" "Range p \<in> set (Minus (Range q) (Range r))" "Type p = Type q"
  using assms by (auto simp: carve_set retype_def)

lemma carve_disjoint:
  assumes "sorted_wrt disjoint_entries m" "Start (Range r) \<le> End (Range r)"
  shows "sorted_wrt disjoint_entries (carve m r)"
  using assms(1)
proof (induction m)
  case Nil
  then show ?case by simp
next
  case (Cons q m)
  have own: "sorted_wrt disjoint_entries (map (retype q) (Minus (Range q) (Range r)))"
    using Minus_pieces_apart [OF assms(2), of "Range q"]
    by (simp add: sorted_wrt_map disjoint_entries_def retype_def)
  have rest: "sorted_wrt disjoint_entries (carve m r)"
    using Cons by simp
  have cross: "disjoint_entries x y"
    if x: "x \<in> set (map (retype q) (Minus (Range q) (Range r)))" and y: "y \<in> set (carve m r)"
    for x y
  proof -
    from x have xin: "Range x \<in> set (Minus (Range q) (Range r))"
      by (auto simp: retype_def)
    from y obtain q' where q': "q' \<in> set m" "Range y \<in> set (Minus (Range q') (Range r))"
      by (rule carve_origin)
    from Cons.prems q'(1) have "\<not> Overlaps (Range q) (Range q')"
      by (auto simp: disjoint_entries_def)
    then show ?thesis
      using Overlaps_inside [of "Range x" "Range y" "Range q" "Range q'"]
        Minus_inside [OF xin] Minus_inside [OF q'(2)]
      by (auto simp: disjoint_entries_def)
  qed
  show ?case
    using own rest cross by (simp add: sorted_wrt_append)
qed

lemma carve_clear:
  assumes "p \<in> set (carve m r)"
  shows "\<not> Overlaps (Range p) (Range r)"
  using assms Minus_clear by (auto elim!: carve_origin)

lemma carve_proper:
  assumes "all_proper m"
  shows "all_proper (carve m r)"
  using assms Minus_proper
  by (fastforce simp: all_proper_def list_all_iff proper_iff elim!: carve_origin)

lemma carve_no_wrap:
  assumes "list_all (\<lambda>q. no_wrap (Range q)) m"
  shows "list_all (\<lambda>q. no_wrap (Range q)) (carve m r)"
  using assms Minus_no_wrap
  by (fastforce simp: list_all_iff elim!: carve_origin)

lemma carve_apart:
  assumes "list_all (\<lambda>q. no_wrap (Range q)) m" "no_wrap (Range r)" "p \<in> set (carve m r)"
  shows "apart (Range p) (Range r)"
proof -
  have "no_wrap (Range p)"
    using carve_no_wrap [OF assms(1), of r] assms(3) by (simp add: list_all_iff)
  then show ?thesis
    using assms(2) carve_clear [OF assms(3)] by (rule not_Overlaps_apart)
qed

lemma Insert_mset:
  assumes "sorts pdq"
  shows "mset (Insert pdq m r) = mset (carve m r) + {#r#}"
  by (simp add: Insert_def sort_map_mset [OF assms])

lemma Insert_set:
  assumes "sorts pdq"
  shows "set (Insert pdq m r) = insert r (set (carve m r))"
  by (simp add: Insert_def sort_map_set [OF assms])

lemma Insert_sorted:
  assumes "sorts pdq"
  shows "sorted (map start_of (Insert pdq m r))"
  by (simp add: Insert_def sort_map_sorted [OF assms])

lemma Insert_invariant:
  assumes "sorts pdq" "sorted_wrt disjoint_entries m" "Start (Range r) \<le> End (Range r)"
  shows "map_invariant (Insert pdq m r)"
proof -
  have "sorted_wrt disjoint_entries (carve m r @ [r])"
    using carve_disjoint [of m r] carve_clear [of _ m r] assms(2,3)
    by (auto simp: sorted_wrt_append disjoint_entries_def)
  moreover have "mset (carve m r @ [r]) = mset (Insert pdq m r)"
    by (simp add: Insert_mset [OF assms(1)])
  ultimately have "sorted_wrt disjoint_entries (Insert pdq m r)"
    using sorted_wrt_symmetric_mset [of disjoint_entries "carve m r @ [r]" "Insert pdq m r"]
    by (auto simp: disjoint_entries_def Overlaps_sym)
  then show ?thesis
    by (simp add: map_invariant_def Insert_sorted [OF assms(1)])
qed

lemma Insert_proper:
  assumes "sorts pdq" "all_proper m" "proper (Range r)"
  shows "all_proper (Insert pdq m r)"
  using carve_proper [OF assms(2), of r] assms(3)
  by (simp add: all_proper_def list_all_iff Insert_set [OF assms(1)])

lemma Insert_no_wrap:
  assumes "sorts pdq" "list_all (\<lambda>q. no_wrap (Range q)) m" "no_wrap (Range r)"
  shows "list_all (\<lambda>q. no_wrap (Range q)) (Insert pdq m r)"
  using carve_no_wrap [OF assms(2), of r] assms(3)
  by (simp add: list_all_iff Insert_set [OF assms(1)])

lemma foldl_Insert_invariant:
  assumes "sorts pdq" "list_all (\<lambda>r. proper (Range r)) rs" "map_invariant m" "all_proper m"
  shows "map_invariant (foldl (Insert pdq) m rs) \<and> all_proper (foldl (Insert pdq) m rs)"
  using assms(2-)
proof (induction rs arbitrary: m)
  case Nil
  then show ?case by simp
next
  case (Cons r rs)
  from Cons.prems have "map_invariant (Insert pdq m r)"
    by (intro Insert_invariant assms(1)) (simp_all add: map_invariant_def proper_le)
  moreover from Cons.prems have "all_proper (Insert pdq m r)"
    by (simp add: Insert_proper [OF assms(1)])
  ultimately show ?case
    using Cons.IH [of "Insert pdq m r"] Cons.prems(1) by simp
qed

lemmas eval_Insert = Insert_def sort_map_def stable_sort_def Minus_def Overlaps_def End_def
  retype_def start_of_def

text \<open>
  C1, amended. Let no entry of the map \<open>m\<close> wrap around \<open>2^64\<close>, and let the typed range
  \<open>e\<close> not wrap. Then \<open>Insert m e\<close> holds the pieces \<open>Minus (Range q) (Range e)\<close> of every
  entry \<open>q\<close> of \<open>m\<close>, each with the type of \<open>q\<close>, and \<open>e\<close> itself. An entry leaves at most
  two pieces, and they hold the addresses of \<open>q\<close> that are not addresses of \<open>e\<close>, and no
  others. The result ascends by \<open>Start\<close>. No entry of the result other than \<open>e\<close> holds an
  address of \<open>e\<close>: the last insertion wins in its footprint. No entry of the result wraps.
\<close>

theorem Insert_overlay:
  assumes "sorts pdq" "no_wrap (Range e)" "list_all (\<lambda>q. no_wrap (Range q)) m"
  shows "mset (Insert pdq m e)
           = mset (concat (map (\<lambda>q. map (\<lambda>p. \<lparr>Range = p, Type = Type q\<rparr>)
                                         (Minus (Range q) (Range e))) m)) + {#e#}
       \<and> (\<forall>q\<in>set m. length (Minus (Range q) (Range e)) \<le> 2
             \<and> (\<forall>x. (\<exists>p\<in>set (Minus (Range q) (Range e)). contains p x)
                      \<longleftrightarrow> contains (Range q) x \<and> \<not> contains (Range e) x))
       \<and> sorted (map start_of (Insert pdq m e))
       \<and> (\<forall>p\<in>#mset (Insert pdq m e) - {#e#}. apart (Range p) (Range e))
       \<and> list_all (\<lambda>p. no_wrap (Range p)) (Insert pdq m e)"
proof (intro conjI ballI allI)
  show "mset (Insert pdq m e)
           = mset (concat (map (\<lambda>q. map (\<lambda>p. \<lparr>Range = p, Type = Type q\<rparr>)
                                         (Minus (Range q) (Range e))) m)) + {#e#}"
    using Insert_mset [OF assms(1), of m e] by (simp add: carve_concat)
next
  fix q assume "q \<in> set m"
  show "length (Minus (Range q) (Range e)) \<le> 2"
    by (rule Minus_length)
next
  fix q x assume "q \<in> set m"
  then have "no_wrap (Range q)"
    using assms(3) by (simp add: list_all_iff)
  then show "(\<exists>p\<in>set (Minus (Range q) (Range e)). contains p x)
                      \<longleftrightarrow> contains (Range q) x \<and> \<not> contains (Range e) x"
    using assms(2) by (rule Minus_contains)
next
  show "sorted (map start_of (Insert pdq m e))"
    by (rule Insert_sorted [OF assms(1)])
next
  fix p assume "p \<in># mset (Insert pdq m e) - {#e#}"
  then have "p \<in> set (carve m e)"
    by (simp add: Insert_mset [OF assms(1)])
  with assms(3,2) show "apart (Range p) (Range e)"
    by (rule carve_apart)
next
  show "list_all (\<lambda>p. no_wrap (Range p)) (Insert pdq m e)"
    by (rule Insert_no_wrap [OF assms(1) assms(3) assms(2)])
qed

theorem Insert_overlay_witness:
  "sorts stable_sort
   \<and> no_wrap (Range \<lparr>Range = \<lparr>Start = 0x800, Size = 0x1000\<rparr>, Type = RangeReserved\<rparr>)
   \<and> list_all (\<lambda>q. no_wrap (Range q)) [\<lparr>Range = \<lparr>Start = 0, Size = 0x1000\<rparr>, Type = RangeRAM\<rparr>]
   \<and> mset (Insert stable_sort [\<lparr>Range = \<lparr>Start = 0, Size = 0x1000\<rparr>, Type = RangeRAM\<rparr>]
             \<lparr>Range = \<lparr>Start = 0x800, Size = 0x1000\<rparr>, Type = RangeReserved\<rparr>)
       = mset [\<lparr>Range = \<lparr>Start = 0, Size = 0x800\<rparr>, Type = RangeRAM\<rparr>,
               \<lparr>Range = \<lparr>Start = 0x800, Size = 0x1000\<rparr>, Type = RangeReserved\<rparr>]
   \<and> sorted (map start_of
        (Insert stable_sort [\<lparr>Range = \<lparr>Start = 0, Size = 0x1000\<rparr>, Type = RangeRAM\<rparr>]
           \<lparr>Range = \<lparr>Start = 0x800, Size = 0x1000\<rparr>, Type = RangeReserved\<rparr>))
   \<and> apart \<lparr>Start = 0, Size = 0x800\<rparr> \<lparr>Start = 0x800, Size = 0x1000\<rparr>"
proof -
  let ?e = "\<lparr>Range = \<lparr>Start = 0x800, Size = 0x1000\<rparr>, Type = RangeReserved\<rparr>"
  let ?m = "[\<lparr>Range = \<lparr>Start = 0, Size = 0x1000\<rparr>, Type = RangeRAM\<rparr>]"
  have h1: "no_wrap (Range ?e)" and h2: "list_all (\<lambda>q. no_wrap (Range q)) ?m"
    by (simp_all add: no_wrap_def)
  have c: "concat (map (\<lambda>q. map (\<lambda>p. \<lparr>Range = p, Type = Type q\<rparr>)
                                 (Minus (Range q) (Range ?e))) ?m)
           = [\<lparr>Range = \<lparr>Start = 0, Size = 0x800\<rparr>, Type = RangeRAM\<rparr>]"
    by (simp add: Minus_def Overlaps_def End_def)
  note T = Insert_overlay [OF sorts_stable_sort h1 h2]
  from T have m: "mset (Insert stable_sort ?m ?e)
       = mset [\<lparr>Range = \<lparr>Start = 0, Size = 0x800\<rparr>, Type = RangeRAM\<rparr>, ?e]"
    unfolding c by simp
  from T have s: "sorted (map start_of (Insert stable_sort ?m ?e))"
    by blast
  from T have "\<forall>p\<in>#mset (Insert stable_sort ?m ?e) - {#?e#}. apart (Range p) (Range ?e)"
    by blast
  then have a: "apart \<lparr>Start = 0, Size = 0x800\<rparr> \<lparr>Start = 0x800, Size = 0x1000\<rparr>"
    unfolding m by simp
  show ?thesis
    using sorts_stable_sort h1 h2 m s a by simp
qed

text \<open>
  C1 as stated, for every \<open>e\<close>, fails where a range wraps. The range of start \<open>50\<close> and
  size \<open>2^64 - 40\<close> holds the address \<open>60\<close>; inserted into the map of the one entry
  \<open>[0, 100)\<close> it leaves the old piece \<open>[10, 100)\<close>, which holds \<open>60\<close> too. The range of start
  \<open>0x32\<close> that ends at \<open>2^64\<close> leaves the entry \<open>[0, 0x64)\<close> whole.
\<close>

theorem Insert_overlay_counterexample:
  "Insert stable_sort [\<lparr>Range = \<lparr>Start = 0, Size = 100\<rparr>, Type = RangeRAM\<rparr>]
     \<lparr>Range = \<lparr>Start = 50, Size = 0xFFFFFFFFFFFFFFD8\<rparr>, Type = RangeReserved\<rparr>
   = [\<lparr>Range = \<lparr>Start = 0, Size = 50\<rparr>, Type = RangeRAM\<rparr>,
      \<lparr>Range = \<lparr>Start = 10, Size = 90\<rparr>, Type = RangeRAM\<rparr>,
      \<lparr>Range = \<lparr>Start = 50, Size = 0xFFFFFFFFFFFFFFD8\<rparr>, Type = RangeReserved\<rparr>]
   \<and> contains \<lparr>Start = 50, Size = 0xFFFFFFFFFFFFFFD8\<rparr> 60
   \<and> contains \<lparr>Start = 10, Size = 90\<rparr> 60
   \<and> Insert stable_sort [\<lparr>Range = \<lparr>Start = 0, Size = 0x64\<rparr>, Type = RangeRAM\<rparr>]
     \<lparr>Range = \<lparr>Start = 0x32, Size = 0xFFFFFFFFFFFFFFCE\<rparr>, Type = RangeReserved\<rparr>
   = [\<lparr>Range = \<lparr>Start = 0, Size = 0x64\<rparr>, Type = RangeRAM\<rparr>,
      \<lparr>Range = \<lparr>Start = 0x32, Size = 0xFFFFFFFFFFFFFFCE\<rparr>, Type = RangeReserved\<rparr>]
   \<and> contains \<lparr>Start = 0x32, Size = 0xFFFFFFFFFFFFFFCE\<rparr> 0x40
   \<and> contains \<lparr>Start = 0, Size = 0x64\<rparr> 0x40"
  by (simp add: eval_Insert contains_def)

text \<open>
  C2, amended. Starting from the empty map, after each call of a sequence of \<open>Insert\<close>
  calls whose ranges are all proper (not empty, and \<open>Start + Size\<close> does not wrap around
  \<open>2^64\<close>), no two entries of the map overlap and the entries ascend by \<open>Start\<close>; every
  entry is itself a proper range.
\<close>

theorem Insert_keeps_invariant:
  assumes "sorts pdq" "list_all (\<lambda>r. proper (Range r)) rs"
  shows "map_invariant (foldl (Insert pdq) [] (take n rs))
       \<and> all_proper (foldl (Insert pdq) [] (take n rs))"
proof -
  have "list_all (\<lambda>r. proper (Range r)) (take n rs)"
    using assms(2) by (auto simp: list_all_iff dest: in_set_takeD)
  with assms(1) show ?thesis
    by (rule foldl_Insert_invariant) (simp_all add: map_invariant_def all_proper_def)
qed

theorem Insert_keeps_invariant_witness:
  "sorts stable_sort
   \<and> list_all (\<lambda>r. proper (Range r))
     [\<lparr>Range = \<lparr>Start = 0, Size = 0x1000\<rparr>, Type = RangeRAM\<rparr>,
      \<lparr>Range = \<lparr>Start = 0x800, Size = 0x1000\<rparr>, Type = RangeReserved\<rparr>]
   \<and> map_invariant (foldl (Insert stable_sort) []
       [\<lparr>Range = \<lparr>Start = 0, Size = 0x1000\<rparr>, Type = RangeRAM\<rparr>,
        \<lparr>Range = \<lparr>Start = 0x800, Size = 0x1000\<rparr>, Type = RangeReserved\<rparr>])
   \<and> foldl (Insert stable_sort) []
       [\<lparr>Range = \<lparr>Start = 0, Size = 0x1000\<rparr>, Type = RangeRAM\<rparr>,
        \<lparr>Range = \<lparr>Start = 0x800, Size = 0x1000\<rparr>, Type = RangeReserved\<rparr>]
      = [\<lparr>Range = \<lparr>Start = 0, Size = 0x800\<rparr>, Type = RangeRAM\<rparr>,
         \<lparr>Range = \<lparr>Start = 0x800, Size = 0x1000\<rparr>, Type = RangeReserved\<rparr>]"
proof -
  have h: "list_all (\<lambda>r. proper (Range r))
     [\<lparr>Range = \<lparr>Start = 0, Size = 0x1000\<rparr>, Type = RangeRAM\<rparr>,
      \<lparr>Range = \<lparr>Start = 0x800, Size = 0x1000\<rparr>, Type = RangeReserved\<rparr>]"
    by (simp add: proper_def no_wrap_def)
  have e: "foldl (Insert stable_sort) []
       [\<lparr>Range = \<lparr>Start = 0, Size = 0x1000\<rparr>, Type = RangeRAM\<rparr>,
        \<lparr>Range = \<lparr>Start = 0x800, Size = 0x1000\<rparr>, Type = RangeReserved\<rparr>]
      = [\<lparr>Range = \<lparr>Start = 0, Size = 0x800\<rparr>, Type = RangeRAM\<rparr>,
         \<lparr>Range = \<lparr>Start = 0x800, Size = 0x1000\<rparr>, Type = RangeReserved\<rparr>]"
    by (simp add: eval_Insert)
  show ?thesis
    using sorts_stable_sort h e Insert_keeps_invariant [OF sorts_stable_sort h, of 2] by simp
qed

text \<open>
  C2 as stated (every inserted range has size \<open>> 0\<close>, nothing else asked) fails when a
  range wraps: \<open>[0, 100)\<close> and then the range of start \<open>50\<close> and size \<open>2^64 - 40\<close>, whose
  end is \<open>10\<close>, leave the overlapping entries \<open>[0, 50)\<close> and \<open>[10, 100)\<close>. The lines
  \<^verbatim>\<open>0-63 : System RAM\<close> and \<^verbatim>\<open>32-9 : reserved\<close> of an iomem file give these two calls.
\<close>

theorem Insert_wrapped_counterexample:
  "0 < Size (Range \<lparr>Range = \<lparr>Start = 0, Size = 100\<rparr>, Type = RangeRAM\<rparr>)
   \<and> 0 < Size (Range \<lparr>Range = \<lparr>Start = 50, Size = 0xFFFFFFFFFFFFFFD8\<rparr>, Type = RangeReserved\<rparr>)
   \<and> foldl (Insert stable_sort) []
       [\<lparr>Range = \<lparr>Start = 0, Size = 100\<rparr>, Type = RangeRAM\<rparr>,
        \<lparr>Range = \<lparr>Start = 50, Size = 0xFFFFFFFFFFFFFFD8\<rparr>, Type = RangeReserved\<rparr>]
      = [\<lparr>Range = \<lparr>Start = 0, Size = 50\<rparr>, Type = RangeRAM\<rparr>,
         \<lparr>Range = \<lparr>Start = 10, Size = 90\<rparr>, Type = RangeRAM\<rparr>,
         \<lparr>Range = \<lparr>Start = 50, Size = 0xFFFFFFFFFFFFFFD8\<rparr>, Type = RangeReserved\<rparr>]
   \<and> \<not> map_invariant (foldl (Insert stable_sort) []
       [\<lparr>Range = \<lparr>Start = 0, Size = 100\<rparr>, Type = RangeRAM\<rparr>,
        \<lparr>Range = \<lparr>Start = 50, Size = 0xFFFFFFFFFFFFFFD8\<rparr>, Type = RangeReserved\<rparr>])"
  by (simp add: eval_Insert map_invariant_def disjoint_entries_def)

lemma cut_at_start_pieces:
  assumes "Size (Range e) = 0"
  shows "map (retype q) (Minus (Range q) (Range e)) = cut_at_start e q"
  using assms by (auto simp: Minus_def Overlaps_def End_def retype_def cut_at_start_def)

lemma carve_empty:
  assumes "Size (Range e) = 0"
  shows "carve m e = concat (map (cut_at_start e) m)"
  using assms by (induction m) (simp_all add: cut_at_start_pieces)

lemma length_concat_cut: "length m \<le> length (concat (map (cut_at_start e) m))"
  by (induction m) (auto simp: cut_at_start_def)

lemma cut_at_start_contains:
  assumes "no_wrap (Range q)"
  shows "(\<exists>p\<in>set (cut_at_start e q). contains (Range p) x) \<longleftrightarrow> contains (Range q) x"
proof (cases "Start (Range q) < Start (Range e) \<and> Start (Range e) < End (Range q)")
  case False
  then show ?thesis by (auto simp: cut_at_start_def)
next
  case True
  let ?a = "\<lparr>Start = Start (Range q), Size = Start (Range e) - Start (Range q)\<rparr>"
  let ?b = "\<lparr>Start = Start (Range e), Size = End (Range q) - Start (Range e)\<rparr>"
  have "no_wrap ?a" "no_wrap ?b"
    using True by (auto simp: no_wrap_iff)
  then have "contains ?a x \<or> contains ?b x \<longleftrightarrow> contains (Range q) x"
    using True assms by (auto simp: contains_no_wrap)
  then show ?thesis
    using True by (simp add: cut_at_start_def)
qed

lemma cut_at_start_length:
  assumes "no_wrap (Range q)"
  shows "length (cut_at_start e q)
       = (if contains (Range q) (Start (Range e)) \<and> Start (Range q) \<noteq> Start (Range e)
          then 2 else 1)"
  using assms by (auto simp: cut_at_start_def contains_no_wrap)

text \<open>
  C8 as stated fails: inserting an empty range into the empty map leaves a map of one
  entry.
\<close>

theorem Insert_empty_counterexample:
  "Size (Range \<lparr>Range = \<lparr>Start = 0, Size = 0\<rparr>, Type = RangeRAM\<rparr>) = 0
   \<and> Insert stable_sort [] \<lparr>Range = \<lparr>Start = 0, Size = 0\<rparr>, Type = RangeRAM\<rparr>
       = [\<lparr>Range = \<lparr>Start = 0, Size = 0\<rparr>, Type = RangeRAM\<rparr>]
   \<and> Insert stable_sort [] \<lparr>Range = \<lparr>Start = 0, Size = 0\<rparr>, Type = RangeRAM\<rparr> \<noteq> []"
  by (simp add: Insert_def sort_map_def)

text \<open>
  C8, amended. Let no entry of the map \<open>m\<close> wrap around \<open>2^64\<close>. Inserting a typed range
  \<open>e\<close> of size zero is not a no-op: \<open>e\<close> is appended as any other range is. The result
  holds \<open>e\<close> and, for every entry of \<open>m\<close>, either the entry or the two parts into which the
  start of \<open>e\<close> cuts it; it ascends by \<open>Start\<close> and is longer than \<open>m\<close>. An entry is cut
  exactly when the start of \<open>e\<close> is one of its addresses and not its first; its parts keep
  its type and hold its addresses, and no others.
\<close>

theorem Insert_empty_appends:
  assumes "sorts pdq" "Size (Range e) = 0" "list_all (\<lambda>q. no_wrap (Range q)) m"
  shows "mset (Insert pdq m e) = mset (concat (map (cut_at_start e) m)) + {#e#}
       \<and> sorted (map start_of (Insert pdq m e))
       \<and> length m < length (Insert pdq m e)
       \<and> (\<forall>q\<in>set m.
            length (cut_at_start e q)
              = (if contains (Range q) (Start (Range e)) \<and> Start (Range q) \<noteq> Start (Range e)
                 then 2 else 1)
            \<and> list_all (\<lambda>p. Type p = Type q) (cut_at_start e q)
            \<and> (\<forall>x. (\<exists>p\<in>set (cut_at_start e q). contains (Range p) x)
                     \<longleftrightarrow> contains (Range q) x))"
proof (intro conjI ballI allI)
  show m: "mset (Insert pdq m e) = mset (concat (map (cut_at_start e) m)) + {#e#}"
    by (simp add: Insert_mset [OF assms(1)] carve_empty [OF assms(2)])
  have "length (Insert pdq m e) = Suc (length (concat (map (cut_at_start e) m)))"
    using m by (metis size_mset size_add_mset size_union size_empty add.right_neutral
        add_mset_add_single)
  then show "length m < length (Insert pdq m e)"
    using length_concat_cut [of m e] by simp
next
  show "sorted (map start_of (Insert pdq m e))"
    by (rule Insert_sorted [OF assms(1)])
next
  fix q assume "q \<in> set m"
  then have n: "no_wrap (Range q)"
    using assms(3) by (simp add: list_all_iff)
  show "length (cut_at_start e q)
              = (if contains (Range q) (Start (Range e)) \<and> Start (Range q) \<noteq> Start (Range e)
                 then 2 else 1)"
    by (rule cut_at_start_length [OF n])
  show "list_all (\<lambda>p. Type p = Type q) (cut_at_start e q)"
    by (simp add: cut_at_start_def)
  fix x
  show "(\<exists>p\<in>set (cut_at_start e q). contains (Range p) x) \<longleftrightarrow> contains (Range q) x"
    by (rule cut_at_start_contains [OF n])
qed

theorem Insert_empty_appends_witness:
  "sorts stable_sort
   \<and> Size (Range \<lparr>Range = \<lparr>Start = 0x10, Size = 0\<rparr>, Type = RangeReserved\<rparr>) = 0
   \<and> list_all (\<lambda>q. no_wrap (Range q)) [\<lparr>Range = \<lparr>Start = 0, Size = 0x20\<rparr>, Type = RangeRAM\<rparr>]
   \<and> mset (Insert stable_sort [\<lparr>Range = \<lparr>Start = 0, Size = 0x20\<rparr>, Type = RangeRAM\<rparr>]
        \<lparr>Range = \<lparr>Start = 0x10, Size = 0\<rparr>, Type = RangeReserved\<rparr>)
      = mset [\<lparr>Range = \<lparr>Start = 0, Size = 0x10\<rparr>, Type = RangeRAM\<rparr>,
              \<lparr>Range = \<lparr>Start = 0x10, Size = 0x10\<rparr>, Type = RangeRAM\<rparr>,
              \<lparr>Range = \<lparr>Start = 0x10, Size = 0\<rparr>, Type = RangeReserved\<rparr>]
   \<and> sorted (map start_of
        (Insert stable_sort [\<lparr>Range = \<lparr>Start = 0, Size = 0x20\<rparr>, Type = RangeRAM\<rparr>]
           \<lparr>Range = \<lparr>Start = 0x10, Size = 0\<rparr>, Type = RangeReserved\<rparr>))"
proof -
  let ?e = "\<lparr>Range = \<lparr>Start = 0x10, Size = 0\<rparr>, Type = RangeReserved\<rparr>"
  let ?m = "[\<lparr>Range = \<lparr>Start = 0, Size = 0x20\<rparr>, Type = RangeRAM\<rparr>]"
  have h1: "Size (Range ?e) = 0"
    by simp
  have h2: "list_all (\<lambda>q. no_wrap (Range q)) ?m"
    by (simp add: no_wrap_def)
  have c: "concat (map (cut_at_start ?e) ?m)
      = [\<lparr>Range = \<lparr>Start = 0, Size = 0x10\<rparr>, Type = RangeRAM\<rparr>,
         \<lparr>Range = \<lparr>Start = 0x10, Size = 0x10\<rparr>, Type = RangeRAM\<rparr>]"
    by (simp add: cut_at_start_def End_def)
  note T = Insert_empty_appends [OF sorts_stable_sort h1 h2]
  from T have m: "mset (Insert stable_sort ?m ?e)
      = mset [\<lparr>Range = \<lparr>Start = 0, Size = 0x10\<rparr>, Type = RangeRAM\<rparr>,
              \<lparr>Range = \<lparr>Start = 0x10, Size = 0x10\<rparr>, Type = RangeRAM\<rparr>, ?e]"
    unfolding c by simp
  from T have s: "sorted (map start_of (Insert stable_sort ?m ?e))"
    by blast
  show ?thesis
    using sorts_stable_sort h1 h2 m s by simp
qed

subsection \<open>The projection\<close>

lemma convert_table:
  "convertToUEFIPayloadMemType t =
     (if t = RangeRAM then 1 else if t = RangeDefault then 2 else if t = RangeACPI then 3
      else if t = RangeNVS then 4 else 5)"
  by (simp add: convertToUEFIPayloadMemType_def rangeTypeToUEFIPayloadMemType_def
      UEFIPayloadTypeRAM_def UEFIPayloadTypeDefault_def UEFIPayloadTypeACPI_def
      UEFIPayloadTypeNVS_def UEFIPayloadTypeReserved_def
      RangeRAM_def RangeDefault_def RangeACPI_def RangeNVS_def RangeReserved_def)

lemma ToUEFI_map: "ToUEFIPayloadMemoryMap m = map payload_entry m"
  by (induction m) simp_all

text \<open>
  C5. The projection yields one entry for each entry of the map, in the same order:
  \<open>Start\<close>, the inclusive end \<open>Start + Size - 1\<close>, and the code of the type, \<open>1\<close> for RAM,
  \<open>2\<close> for Default, \<open>3\<close> for ACPI, \<open>4\<close> for NVS and \<open>5\<close> for Reserved and for every
  other type. The ACPI entry \<open>[0x4000, 0x5000)\<close> gives \<open>(0x4000, 0x4FFF, 3)\<close>.
\<close>

theorem ToUEFIPayloadMemoryMap_projection:
  "ToUEFIPayloadMemoryMap m
     = map (\<lambda>entry.
         \<lparr>UEFIPayloadMemoryMapEntry.Start = Start (Range entry),
          UEFIPayloadMemoryMapEntry.End = Start (Range entry) + Size (Range entry) - 1,
          UEFIPayloadMemoryMapEntry.Type =
            (if Type entry = RangeRAM then 1 else if Type entry = RangeDefault then 2
             else if Type entry = RangeACPI then 3 else if Type entry = RangeNVS then 4
             else 5)\<rparr>) m
   \<and> length (ToUEFIPayloadMemoryMap m) = length m
   \<and> map UEFIPayloadMemoryMapEntry.Start (ToUEFIPayloadMemoryMap m) = map start_of m
   \<and> ToUEFIPayloadMemoryMap [\<lparr>Range = \<lparr>Start = 0x4000, Size = 0x1000\<rparr>, Type = RangeACPI\<rparr>]
       = [\<lparr>UEFIPayloadMemoryMapEntry.Start = 0x4000,
           UEFIPayloadMemoryMapEntry.End = 0x4FFF,
           UEFIPayloadMemoryMapEntry.Type = 3\<rparr>]"
proof (intro conjI)
  show "ToUEFIPayloadMemoryMap m
     = map (\<lambda>entry.
         \<lparr>UEFIPayloadMemoryMapEntry.Start = Start (Range entry),
          UEFIPayloadMemoryMapEntry.End = Start (Range entry) + Size (Range entry) - 1,
          UEFIPayloadMemoryMapEntry.Type =
            (if Type entry = RangeRAM then 1 else if Type entry = RangeDefault then 2
             else if Type entry = RangeACPI then 3 else if Type entry = RangeNVS then 4
             else 5)\<rparr>) m"
    by (simp add: ToUEFI_map payload_entry_def convert_table)
  show "length (ToUEFIPayloadMemoryMap m) = length m"
    by (simp add: ToUEFI_map)
  show "map UEFIPayloadMemoryMapEntry.Start (ToUEFIPayloadMemoryMap m) = map start_of m"
    by (simp add: ToUEFI_map payload_entry_def start_of_def)
  show "ToUEFIPayloadMemoryMap [\<lparr>Range = \<lparr>Start = 0x4000, Size = 0x1000\<rparr>, Type = RangeACPI\<rparr>]
       = [\<lparr>UEFIPayloadMemoryMapEntry.Start = 0x4000,
           UEFIPayloadMemoryMapEntry.End = 0x4FFF,
           UEFIPayloadMemoryMapEntry.Type = 3\<rparr>]"
    by (simp add: payload_entry_def convert_table RangeRAM_def RangeDefault_def RangeACPI_def)
qed

section \<open>The adapters\<close>

subsection \<open>The text adapters\<close>

lemmas eval_text = Split_def TrimSpace_def white_space_def space_width_def ParseUint16_def
  digit_val_def CutPrefix_def RangeFromInterval_def rangeType_def

lemma length_split_from:
  "length (split_from [c] acc s) = Suc (count_list s c)"
  by (induction s arbitrary: acc) auto

lemma length_Split_char: "length (Split s [c]) = Suc (count_list s c)"
  by (simp add: Split_def length_split_from)

lemma iomem_scan_append:
  "iomem_scan pdq mm (xs @ ys) = iomem_scan pdq (iomem_scan pdq mm xs) ys"
  by (induction xs arbitrary: mm) (auto split: option.splits)

lemma iomem_scan_skip:
  assumes "iomem_line text = None"
  shows "iomem_scan pdq mm (before @ text # after) = iomem_scan pdq mm (before @ after)"
  using assms by (simp add: iomem_scan_append)

lemma memblock_scan_append:
  "memblock_scan pdq typ mm (xs @ ys) = memblock_scan pdq typ (memblock_scan pdq typ mm xs) ys"
  by (induction xs arbitrary: mm) (auto split: option.splits)

lemma memblock_scan_skip:
  assumes "rangeFromMemblockLine text = None"
  shows "memblock_scan pdq typ mm (before @ text # after) = memblock_scan pdq typ mm (before @ after)"
  using assms by (simp add: memblock_scan_append)

text \<open>
  C7. In both text adapters a line whose two parsed addresses are equal adds nothing: the
  loop skips it, and the map is what it would be without the line. For the iomem adapter
  the addresses are the two hexadecimal fields before the colon; for the memblock adapter
  the two fields after it, their \<open>0x\<close> cut off. The line \<^verbatim>\<open>1000-1000 : Empty\<close> is
  skipped.
\<close>

theorem empty_range_lines_skipped:
  "(Split line '':'' = [efst, esnd] \<and> Split (TrimSpace efst) ''-'' = [lo, hi]
      \<and> ParseUint16 lo = Some v \<and> ParseUint16 hi = Some v
    \<longrightarrow> iomem_line line = None
      \<and> memoryMapFromIOMem pdq (before @ line # after) err = memoryMapFromIOMem pdq (before @ after) err)
   \<and> (Split s '':'' = [mfst, msnd] \<and> Split (TrimSpace msnd) ''..'' = [mlo, mhi]
      \<and> ParseUint16 (CutPrefix mlo ''0x'') = Some w
      \<and> ParseUint16 (CutPrefix mhi ''0x'') = Some w
    \<longrightarrow> rangeFromMemblockLine s = None
      \<and> memoryMapFromMemblock pdq (mbefore @ s # mafter) merr reserved rerr
          = memoryMapFromMemblock pdq (mbefore @ mafter) merr reserved rerr
      \<and> memoryMapFromMemblock pdq memory merr (mbefore @ s # mafter) rerr
          = memoryMapFromMemblock pdq memory merr (mbefore @ mafter) rerr)
   \<and> iomem_line ''1000-1000 : Empty'' = None"
proof (intro conjI impI)
  assume a: "Split line '':'' = [efst, esnd] \<and> Split (TrimSpace efst) ''-'' = [lo, hi]
      \<and> ParseUint16 lo = Some v \<and> ParseUint16 hi = Some v"
  then show n: "iomem_line line = None"
    by (simp add: iomem_line_def)
  show "memoryMapFromIOMem pdq (before @ line # after) err = memoryMapFromIOMem pdq (before @ after) err"
    by (simp add: memoryMapFromIOMem_def iomem_scan_skip [OF n])
next
  assume a: "Split s '':'' = [mfst, msnd] \<and> Split (TrimSpace msnd) ''..'' = [mlo, mhi]
      \<and> ParseUint16 (CutPrefix mlo ''0x'') = Some w
      \<and> ParseUint16 (CutPrefix mhi ''0x'') = Some w"
  then show n: "rangeFromMemblockLine s = None"
    by (simp add: rangeFromMemblockLine_def)
  show "memoryMapFromMemblock pdq (mbefore @ s # mafter) merr reserved rerr
          = memoryMapFromMemblock pdq (mbefore @ mafter) merr reserved rerr"
    by (simp add: memoryMapFromMemblock_def memblock_scan_skip [OF n])
  show "memoryMapFromMemblock pdq memory merr (mbefore @ s # mafter) rerr
          = memoryMapFromMemblock pdq memory merr (mbefore @ mafter) rerr"
    by (simp add: memoryMapFromMemblock_def memblock_scan_skip [OF n] split: option.splits)
next
  show "iomem_line ''1000-1000 : Empty'' = None"
    by (simp add: iomem_line_def eval_text)
qed

lemma iomem_example_fields:
  "Split ''1000-1000 : Empty'' '':'' = [''1000-1000 '', '' Empty'']
   \<and> Split (TrimSpace ''1000-1000 '') ''-'' = [''1000'', ''1000'']
   \<and> ParseUint16 ''1000'' = Some 0x1000"
  by (simp add: eval_text)

lemma memblock_example_fields:
  "Split ''   1: 0x0000000000001000..0x0000000000001000'' '':''
     = [''   1'', '' 0x0000000000001000..0x0000000000001000'']
   \<and> Split (TrimSpace '' 0x0000000000001000..0x0000000000001000'') ''..''
     = [''0x0000000000001000'', ''0x0000000000001000'']
   \<and> ParseUint16 (CutPrefix ''0x0000000000001000'' ''0x'') = Some 0x1000"
  by (simp add: eval_text)

theorem empty_range_lines_skipped_witness:
  "Split ''1000-1000 : Empty'' '':'' = [''1000-1000 '', '' Empty'']
   \<and> Split (TrimSpace ''1000-1000 '') ''-'' = [''1000'', ''1000'']
   \<and> ParseUint16 ''1000'' = Some 0x1000
   \<and> memoryMapFromIOMem stable_sort [''0-fff : System RAM'', ''1000-1000 : Empty''] None
      = Inr [\<lparr>Range = \<lparr>Start = 0, Size = 0x1000\<rparr>, Type = RangeRAM\<rparr>]
   \<and> Split ''   1: 0x0000000000001000..0x0000000000001000'' '':''
     = [''   1'', '' 0x0000000000001000..0x0000000000001000'']
   \<and> Split (TrimSpace '' 0x0000000000001000..0x0000000000001000'') ''..''
     = [''0x0000000000001000'', ''0x0000000000001000'']
   \<and> ParseUint16 (CutPrefix ''0x0000000000001000'' ''0x'') = Some 0x1000
   \<and> memoryMapFromMemblock stable_sort
        [''   0: 0x0000000000000000..0x0000000000000fff'',
         ''   1: 0x0000000000001000..0x0000000000001000''] None [] None
      = Inr [\<lparr>Range = \<lparr>Start = 0, Size = 0x1000\<rparr>, Type = RangeRAM\<rparr>]"
proof -
  have r: "memoryMapFromIOMem stable_sort ([''0-fff : System RAM''] @ []) None
      = Inr [\<lparr>Range = \<lparr>Start = 0, Size = 0x1000\<rparr>, Type = RangeRAM\<rparr>]"
    by (simp add: memoryMapFromIOMem_def iomem_line_def eval_text Insert_def sort_map_def stable_sort_def RangeRAM_def)
  have m: "memoryMapFromMemblock stable_sort ([''   0: 0x0000000000000000..0x0000000000000fff''] @ []) None [] None
      = Inr [\<lparr>Range = \<lparr>Start = 0, Size = 0x1000\<rparr>, Type = RangeRAM\<rparr>]"
    by (simp add: memoryMapFromMemblock_def rangeFromMemblockLine_def eval_text Insert_def
        sort_map_def stable_sort_def)
  show ?thesis
    using iomem_example_fields memblock_example_fields r m
      empty_range_lines_skipped [where pdq = stable_sort and line = "''1000-1000 : Empty''" and efst = "''1000-1000 ''"
        and esnd = "'' Empty''" and lo = "''1000''" and hi = "''1000''" and v = "0x1000"
        and before = "[''0-fff : System RAM'']" and after = "[]" and err = None
        and s = "''   1: 0x0000000000001000..0x0000000000001000''" and mfst = "''   1''"
        and msnd = "'' 0x0000000000001000..0x0000000000001000''"
        and mlo = "''0x0000000000001000''" and mhi = "''0x0000000000001000''"
        and w = "0x1000" and mbefore = "[''   0: 0x0000000000000000..0x0000000000000fff'']"
        and mafter = "[]" and merr = None and reserved = "[]" and rerr = None]
    by simp
qed

text \<open>
  C10. A line of the iomem text with more than one colon adds nothing: \<open>Split\<close> gives more
  than two pieces, the loop skips the line, and the map is what it would be without it.
  So it is with \<^verbatim>\<open>740100000000-7401001fffff : PCI Bus 0001:01\<close>.
\<close>

theorem colon_lines_skipped:
  "(1 < count_list line CHR '':''
    \<longrightarrow> iomem_line line = None
      \<and> memoryMapFromIOMem pdq (before @ line # after) err = memoryMapFromIOMem pdq (before @ after) err)
   \<and> iomem_line ''740100000000-7401001fffff : PCI Bus 0001:01'' = None"
proof (intro conjI impI)
  assume "1 < count_list line CHR '':''"
  then have "length (Split line '':'') \<noteq> 2"
    by (simp add: length_Split_char)
  then show n: "iomem_line line = None"
    by (auto simp: iomem_line_def split: list.splits)
  show "memoryMapFromIOMem pdq (before @ line # after) err = memoryMapFromIOMem pdq (before @ after) err"
    by (simp add: memoryMapFromIOMem_def iomem_scan_skip [OF n])
next
  show "iomem_line ''740100000000-7401001fffff : PCI Bus 0001:01'' = None"
    by (simp add: iomem_line_def Split_def)
qed

theorem colon_lines_skipped_witness:
  "1 < count_list ''740100000000-7401001fffff : PCI Bus 0001:01'' CHR '':''
   \<and> memoryMapFromIOMem stable_sort [''0-fff : System RAM'', ''740100000000-7401001fffff : PCI Bus 0001:01''] None
      = Inr [\<lparr>Range = \<lparr>Start = 0, Size = 0x1000\<rparr>, Type = RangeRAM\<rparr>]"
proof -
  have c: "1 < count_list ''740100000000-7401001fffff : PCI Bus 0001:01'' CHR '':''"
    by simp
  have r: "memoryMapFromIOMem stable_sort ([''0-fff : System RAM''] @ []) None
      = Inr [\<lparr>Range = \<lparr>Start = 0, Size = 0x1000\<rparr>, Type = RangeRAM\<rparr>]"
    by (simp add: memoryMapFromIOMem_def iomem_line_def eval_text Insert_def sort_map_def stable_sort_def RangeRAM_def)
  show ?thesis
    using c r colon_lines_skipped [where pdq = stable_sort
        and line = "''740100000000-7401001fffff : PCI Bus 0001:01''"
        and before = "[''0-fff : System RAM'']" and after = "[]" and err = None]
    by simp
qed

lemma Insert_types:
  assumes "sorts pdq"
  shows "Type ` set (Insert pdq m r) \<subseteq> insert (Type r) (Type ` set m)"
  by (auto simp: Insert_set [OF assms] elim!: carve_origin)

lemma iomem_line_type:
  assumes "iomem_line line = Some tr"
  shows "\<exists>addrs label. Split line '':'' = [addrs, label] \<and> Type tr = rangeType (TrimSpace label)"
  using assms
  by (auto simp: iomem_line_def Let_def split: list.splits option.splits if_splits)

lemma iomem_scan_types:
  assumes "sorts pdq" "tr \<in> set (iomem_scan pdq mm lines)"
  shows "Type tr \<in> Type ` set mm
       \<or> (\<exists>line\<in>set lines. \<exists>addrs label.
             Split line '':'' = [addrs, label] \<and> Type tr = rangeType (TrimSpace label))"
  using assms(2)
proof (induction lines arbitrary: mm)
  case Nil
  then show ?case by auto
next
  case (Cons l ls)
  show ?case
  proof (cases "iomem_line l")
    case None
    with Cons.prems have "tr \<in> set (iomem_scan pdq mm ls)" by simp
    from Cons.IH [OF this] show ?thesis by auto
  next
    case (Some r)
    with Cons.prems have "tr \<in> set (iomem_scan pdq (Insert pdq mm r) ls)" by simp
    from Cons.IH [OF this] show ?thesis
    proof
      assume "Type tr \<in> Type ` set (Insert pdq mm r)"
      then have "Type tr = Type r \<or> Type tr \<in> Type ` set mm"
        using Insert_types [OF assms(1), of mm r] by auto
      then show ?thesis
        using iomem_line_type [OF Some] by auto
    next
      assume "\<exists>line\<in>set ls. \<exists>addrs label.
             Split line '':'' = [addrs, label] \<and> Type tr = rangeType (TrimSpace label)"
      then show ?thesis by auto
    qed
  qed
qed

text \<open>
  C4, amended. In the map the iomem adapter returns, the type of every entry is the label
  of one of the lines, white space trimmed: \<open>Reserved\<close> when that label is \<open>reserved\<close>,
  and the label itself, verbatim, otherwise. No label is coerced.
\<close>

theorem iomem_types_verbatim:
  assumes "sorts pdq" "memoryMapFromIOMem pdq lines err = Inr mm" "tr \<in> set mm"
  shows "\<exists>line\<in>set lines. \<exists>addrs label.
           Split line '':'' = [addrs, label]
           \<and> Type tr = (if TrimSpace label = ''reserved'' then RangeReserved else TrimSpace label)"
proof -
  from assms(2,3) have "tr \<in> set (iomem_scan pdq [] lines)"
    by (auto simp: memoryMapFromIOMem_def split: option.splits)
  from iomem_scan_types [OF assms(1) this] show ?thesis
    by (simp add: rangeType_def)
qed

theorem iomem_types_verbatim_witness:
  "sorts stable_sort
   \<and> memoryMapFromIOMem stable_sort [''1000-1fff : foo'', ''2000-2fff : reserved''] None
     = Inr [\<lparr>Range = \<lparr>Start = 0x1000, Size = 0x1000\<rparr>, Type = ''foo''\<rparr>,
            \<lparr>Range = \<lparr>Start = 0x2000, Size = 0x1000\<rparr>, Type = RangeReserved\<rparr>]
   \<and> (\<exists>line\<in>set [''1000-1fff : foo'', ''2000-2fff : reserved'']. \<exists>addrs label.
           Split line '':'' = [addrs, label]
           \<and> Type \<lparr>Range = \<lparr>Start = 0x1000, Size = 0x1000\<rparr>, Type = ''foo''\<rparr>
               = (if TrimSpace label = ''reserved'' then RangeReserved else TrimSpace label))"
proof -
  have r: "memoryMapFromIOMem stable_sort [''1000-1fff : foo'', ''2000-2fff : reserved''] None
     = Inr [\<lparr>Range = \<lparr>Start = 0x1000, Size = 0x1000\<rparr>, Type = ''foo''\<rparr>,
            \<lparr>Range = \<lparr>Start = 0x2000, Size = 0x1000\<rparr>, Type = RangeReserved\<rparr>]"
    by (simp add: memoryMapFromIOMem_def iomem_line_def eval_text eval_Insert)
  show ?thesis
    using sorts_stable_sort r
      iomem_types_verbatim [OF sorts_stable_sort r,
        of "\<lparr>Range = \<lparr>Start = 0x1000, Size = 0x1000\<rparr>, Type = ''foo''\<rparr>"]
    by simp
qed

text \<open>
  C4 as stated fails: the label \<open>foo\<close> is not coerced, and the entry carries the type
  \<open>foo\<close>, which is none of the five range types.
\<close>

theorem iomem_label_counterexample:
  "memoryMapFromIOMem stable_sort [''1000-1fff : foo''] None
     = Inr [\<lparr>Range = \<lparr>Start = 0x1000, Size = 0x1000\<rparr>, Type = ''foo''\<rparr>]
   \<and> ''foo'' \<notin> set range_types"
  by (simp add: memoryMapFromIOMem_def iomem_line_def eval_text Insert_def sort_map_def stable_sort_def
      range_types_def RangeRAM_def RangeDefault_def RangeACPI_def RangeNVS_def RangeReserved_def)

subsection \<open>The firmware map\<close>

lemma walker_error:
  "entry_error f = (case walker st f of Inl e \<Rightarrow> Some e | Inr st' \<Rightarrow> None)"
  by (simp add: entry_error_def walker_def Let_def split: option.splits sum.splits)

lemma walker_Inl: "walker st f = Inl e \<longleftrightarrow> entry_error f = Some e"
  using walker_error [of f st] by (auto split: sum.splits)

lemma walker_Inr_ex: "(\<exists>st'. walker st f = Inr st') \<longleftrightarrow> entry_error f = None"
  using walker_error [of f st] by (auto split: sum.splits)

lemma walker_ranges:
  assumes "walker st f = Inr st'"
  shows "ranges st' = record_entry f (ranges st)"
  using assms
  by (auto simp: walker_def record_entry_def set_field_def Let_def
      split: option.splits sum.splits if_splits)

lemma walker_logged:
  assumes "walker st f = Inr st'"
  shows "set (logged st) \<subseteq> set (logged st')"
  using assms
  by (auto simp: walker_def Let_def split: option.splits sum.splits if_splits)

lemma efi_walk_fst: "fst (efi_walk st fs) = first_error fs"
proof (induction fs arbitrary: st)
  case Nil
  then show ?case by simp
next
  case (Cons f fs)
  then show ?case
    using walker_error [of f st] by (auto split: sum.splits)
qed

lemma efi_walk_ranges:
  assumes "first_error fs = None"
  shows "ranges (snd (efi_walk st fs)) = fold record_entry fs (ranges st)"
  using assms
proof (induction fs arbitrary: st)
  case Nil
  then show ?case by simp
next
  case (Cons f fs)
  from Cons.prems have e: "entry_error f = None" and r: "first_error fs = None"
    by (auto split: option.splits)
  from e obtain st' where w: "walker st f = Inr st'"
    using walker_Inr_ex [of st f] by auto
  show ?case
    using Cons.IH [OF r, of st'] w walker_ranges [OF w] by simp
qed

lemma efi_walk_logged: "set (logged st) \<subseteq> set (logged (snd (efi_walk st fs)))"
proof (induction fs arbitrary: st)
  case Nil
  then show ?case by simp
next
  case (Cons f fs)
  show ?case
  proof (cases "walker st f")
    case (Inl e)
    then show ?thesis by simp
  next
    case (Inr st')
    then show ?thesis
      using Cons.IH [of st'] walker_logged [OF Inr] by auto
  qed
qed

lemma efi_walk_append:
  "efi_walk st (xs @ ys) =
     (case efi_walk st xs of (Some e, st') \<Rightarrow> (Some e, st') | (None, st') \<Rightarrow> efi_walk st' ys)"
  by (induction xs arbitrary: st) (auto split: sum.splits)

lemma first_error_append:
  "first_error (xs @ ys) = (case first_error xs of Some e \<Rightarrow> Some e | None \<Rightarrow> first_error ys)"
  by (induction xs) (auto split: option.splits)

lemma first_error_None: "first_error fs = None \<longleftrightarrow> (\<forall>f\<in>set fs. entry_error f = None)"
  by (induction fs) (auto split: option.splits)

lemma memoryMapFromEFI_eq:
  "memoryMapFromEFI pdq fs order =
     (case first_error fs of
        Some e \<Rightarrow> Inl e
      | None \<Rightarrow>
          Inr (sort_map pdq (List.map_filter
                 (\<lambda>dir. map_option typed_of_memRange (fold record_entry fs Map.empty dir)) order)))"
proof -
  obtain r st where w: "efi_walk efi_init fs = (r, st)" by (cases "efi_walk efi_init fs")
  then have r: "r = first_error fs"
    using efi_walk_fst [of efi_init fs] by simp
  show ?thesis
  proof (cases "first_error fs")
    case None
    then have "ranges st = fold record_entry fs Map.empty"
      using efi_walk_ranges [of fs efi_init] w by (simp add: efi_init_def)
    then show ?thesis
      using w r None by (simp add: memoryMapFromEFI_def)
  next
    case (Some e)
    then show ?thesis
      using w r by (simp add: memoryMapFromEFI_def)
  qed
qed

lemma set_field_commute:
  assumes "b \<noteq> b'"
  shows "set_field b d (set_field b' d' r) = set_field b' d' (set_field b d r)"
  using assms by (simp add: set_field_def split: option.splits)

lemma record_entry_commute:
  assumes "entry_IsDir f \<or> entry_IsDir g \<or> entry_key f \<noteq> entry_key g"
  shows "record_entry f (record_entry g m) = record_entry g (record_entry f m)"
proof (cases "entry_IsDir f \<or> entry_IsDir g")
  case True
  then show ?thesis by (auto simp: record_entry_def)
next
  case False
  with assms have k: "entry_key f \<noteq> entry_key g" by simp
  show ?thesis
  proof (cases "path_Dir (entry_name f) = path_Dir (entry_name g)")
    case True
    with k have "path_Base (entry_name f) \<noteq> path_Base (entry_name g)"
      by (simp add: entry_key_def)
    then show ?thesis
      using True False
      by (auto simp: record_entry_def set_field_commute split: sum.splits)
  next
    case d: False
    then show ?thesis
      using False
      by (auto simp: record_entry_def fun_upd_twist split: sum.splits)
  qed
qed

lemma keys_apart:
  assumes "distinct (map entry_key (filter (\<lambda>f. \<not> entry_IsDir f) fs))"
    "f \<in> set fs" "g \<in> set fs" "f \<noteq> g"
  shows "entry_IsDir f \<or> entry_IsDir g \<or> entry_key f \<noteq> entry_key g"
proof -
  from assms(1) have "inj_on entry_key (set (filter (\<lambda>f. \<not> entry_IsDir f) fs))"
    by (simp add: distinct_map)
  then show ?thesis
    using assms(2-4) by (auto simp: inj_on_def)
qed

lemma fold_record_entry_perm:
  assumes "mset fs' = mset fs"
    and "distinct (map entry_key (filter (\<lambda>f. \<not> entry_IsDir f) fs))"
  shows "fold record_entry fs' m = fold record_entry fs m"
proof -
  have "record_entry f \<circ> record_entry g = record_entry g \<circ> record_entry f"
    if "f \<in> set fs" "g \<in> set fs" for f g
  proof (cases "f = g")
    case True
    then show ?thesis by simp
  next
    case False
    from keys_apart [OF assms(2) that False] show ?thesis
      by (auto simp: fun_eq_iff record_entry_commute)
  qed
  then have "fold record_entry fs = fold record_entry fs'"
    by (rule fold_multiset_equiv) (simp_all add: assms(1))
  then show ?thesis by simp
qed

lemma first_error_perm:
  assumes "mset fs' = mset fs"
  shows "first_error fs' = None \<longleftrightarrow> first_error fs = None"
  using mset_eq_setD [OF assms] by (simp add: first_error_None)

lemma map_filter_order:
  assumes "distinct order" "distinct order'" "set order = set order'"
  shows "mset (List.map_filter g order) = mset (List.map_filter g order')"
proof -
  have "mset order = mset order'"
    using assms by (simp add: set_eq_iff_mset_eq_distinct)
  then have "mset (filter (\<lambda>x. g x \<noteq> None) order) = mset (filter (\<lambda>x. g x \<noteq> None) order')"
    by (simp only: mset_filter)
  then have "mset (map (the \<circ> g) (filter (\<lambda>x. g x \<noteq> None) order))
      = mset (map (the \<circ> g) (filter (\<lambda>x. g x \<noteq> None) order'))"
    by (simp only: mset_map)
  then show ?thesis
    by (simp only: List.map_filter_def)
qed

lemma sorted_key_unique:
  assumes "mset xs = mset ys" "sorted (map f xs)" "sorted (map f ys)" "distinct (map f xs)"
  shows "ys = xs"
proof -
  have s: "set ys = set xs" using assms(1) by (metis set_mset_mset)
  have "mset (map f ys) = mset (map f xs)" using assms(1) by simp
  then have d: "distinct (map f ys)"
    using assms(4) by (metis mset_eq_imp_distinct_iff)
  have "map f ys = map f xs"
    using assms(2,3,4) d s by (intro sorted_distinct_set_unique) auto
  moreover have "inj_on f (set ys \<union> set xs)"
    using assms(4) s by (simp add: distinct_map)
  ultimately show ?thesis
    by (simp add: inj_on_map_eq_map)
qed

text \<open>
  C9, amended. Take two enumerations of the same entries, each directory presenting each
  attribute file at most once. The adapter fails on both or on neither. When it succeeds,
  the two maps hold the same entries, both in ascending order of \<open>Start\<close>, whatever order
  the iteration over \<open>ranges\<close> takes; and the two maps are equal when the start addresses
  in the map are pairwise distinct.
\<close>

theorem efi_order_insensitive:
  assumes "mset entries' = mset entries"
    and "distinct (map entry_key (filter (\<lambda>f. \<not> entry_IsDir f) entries))"
  shows "((\<exists>e. memoryMapFromEFI pdq entries order = Inl e)
           \<longleftrightarrow> (\<exists>e. memoryMapFromEFI pdq entries' order' = Inl e))
       \<and> (sorts pdq \<and> memoryMapFromEFI pdq entries order = Inr m
           \<and> iteration_order (snd (efi_walk efi_init entries)) order
           \<and> iteration_order (snd (efi_walk efi_init entries')) order'
          \<longrightarrow> (\<exists>m'. memoryMapFromEFI pdq entries' order' = Inr m'
                 \<and> mset m' = mset m \<and> sorted (map start_of m') \<and> sorted (map start_of m)
                 \<and> (distinct (map start_of m) \<longrightarrow> m' = m)))"
proof (intro conjI impI)
  show "(\<exists>e. memoryMapFromEFI pdq entries order = Inl e)
           \<longleftrightarrow> (\<exists>e. memoryMapFromEFI pdq entries' order' = Inl e)"
    using first_error_perm [OF assms(1)]
    by (auto simp: memoryMapFromEFI_eq split: option.splits)
next
  assume a: "sorts pdq \<and> memoryMapFromEFI pdq entries order = Inr m
           \<and> iteration_order (snd (efi_walk efi_init entries)) order
           \<and> iteration_order (snd (efi_walk efi_init entries')) order'"
  then have s: "sorts pdq" by simp
  define g where "g = (\<lambda>dir. map_option typed_of_memRange (fold record_entry entries Map.empty dir))"
  from a have ok: "first_error entries = None"
    by (auto simp: memoryMapFromEFI_eq split: option.splits)
  then have ok': "first_error entries' = None"
    using first_error_perm [OF assms(1)] by simp
  have f: "fold record_entry entries' Map.empty = fold record_entry entries Map.empty"
    by (rule fold_record_entry_perm [OF assms])
  have m: "m = sort_map pdq (List.map_filter g order)"
    using a ok by (simp add: memoryMapFromEFI_eq g_def)
  have m': "memoryMapFromEFI pdq entries' order' = Inr (sort_map pdq (List.map_filter g order'))"
    using ok' f by (simp add: memoryMapFromEFI_eq g_def)
  have "ranges (snd (efi_walk efi_init entries')) = ranges (snd (efi_walk efi_init entries))"
    using efi_walk_ranges [OF ok, of efi_init] efi_walk_ranges [OF ok', of efi_init] f
    by (simp add: efi_init_def)
  then have "mset (List.map_filter g order') = mset (List.map_filter g order)"
    using a by (intro map_filter_order) (auto simp: iteration_order_def)
  then have e: "mset (sort_map pdq (List.map_filter g order')) = mset m"
    by (simp add: m sort_map_mset [OF s])
  have u: "sort_map pdq (List.map_filter g order') = m" if "distinct (map start_of m)"
    using sorted_key_unique [of m "sort_map pdq (List.map_filter g order')" start_of] e that
    by (simp add: sort_map_sorted [OF s] m)
  show "\<exists>m'. memoryMapFromEFI pdq entries' order' = Inr m'
                 \<and> mset m' = mset m \<and> sorted (map start_of m') \<and> sorted (map start_of m)
                 \<and> (distinct (map start_of m) \<longrightarrow> m' = m)"
    using m' e u by (auto simp: sort_map_sorted [OF s] m)
qed

lemmas eval_efi = memoryMapFromEFI_def efi_init_def walker_def regular_file_def
  path_Dir_def path_Base_def path_Clean_def Split_def TrimSpace_def white_space_def
  space_width_def ParseUint0_def base_prefix_def digit_val_def sysfsToRangeType_def
  zero_memRange_def typed_of_memRange_def RangeFromInterval_def List.map_filter_def
  sort_map_def stable_sort_def start_of_def iteration_order_def entry_key_def efi_log_def
  RangeRAM_def RangeDefault_def RangeACPI_def RangeNVS_def RangeReserved_def

theorem efi_order_insensitive_witness:
  "sorts stable_sort
   \<and> mset [regular_file ''/m/1/end'' ''0x1fff'', regular_file ''/m/1/start'' ''0x1000'',
         regular_file ''/m/1/type'' ''Reserved'',
         regular_file ''/m/0/end'' ''0xfff'', regular_file ''/m/0/start'' ''0x0'',
         regular_file ''/m/0/type'' ''System RAM'']
   = mset [regular_file ''/m/0/end'' ''0xfff'', regular_file ''/m/0/start'' ''0x0'',
           regular_file ''/m/0/type'' ''System RAM'',
           regular_file ''/m/1/end'' ''0x1fff'', regular_file ''/m/1/start'' ''0x1000'',
           regular_file ''/m/1/type'' ''Reserved'']
   \<and> distinct (map entry_key (filter (\<lambda>f. \<not> entry_IsDir f)
          [regular_file ''/m/0/end'' ''0xfff'', regular_file ''/m/0/start'' ''0x0'',
           regular_file ''/m/0/type'' ''System RAM'',
           regular_file ''/m/1/end'' ''0x1fff'', regular_file ''/m/1/start'' ''0x1000'',
           regular_file ''/m/1/type'' ''Reserved'']))
   \<and> memoryMapFromEFI stable_sort
        [regular_file ''/m/0/end'' ''0xfff'', regular_file ''/m/0/start'' ''0x0'',
         regular_file ''/m/0/type'' ''System RAM'',
         regular_file ''/m/1/end'' ''0x1fff'', regular_file ''/m/1/start'' ''0x1000'',
         regular_file ''/m/1/type'' ''Reserved'']
        [''/m/0'', ''/m/1'']
      = Inr [\<lparr>Range = \<lparr>Start = 0, Size = 0x1000\<rparr>, Type = RangeRAM\<rparr>,
             \<lparr>Range = \<lparr>Start = 0x1000, Size = 0x1000\<rparr>, Type = RangeReserved\<rparr>]
   \<and> iteration_order (snd (efi_walk efi_init
        [regular_file ''/m/0/end'' ''0xfff'', regular_file ''/m/0/start'' ''0x0'',
         regular_file ''/m/0/type'' ''System RAM'',
         regular_file ''/m/1/end'' ''0x1fff'', regular_file ''/m/1/start'' ''0x1000'',
         regular_file ''/m/1/type'' ''Reserved''])) [''/m/0'', ''/m/1'']
   \<and> iteration_order (snd (efi_walk efi_init
        [regular_file ''/m/1/end'' ''0x1fff'', regular_file ''/m/1/start'' ''0x1000'',
         regular_file ''/m/1/type'' ''Reserved'',
         regular_file ''/m/0/end'' ''0xfff'', regular_file ''/m/0/start'' ''0x0'',
         regular_file ''/m/0/type'' ''System RAM''])) [''/m/1'', ''/m/0'']
   \<and> distinct (map start_of
        [\<lparr>Range = \<lparr>Start = 0, Size = 0x1000\<rparr>, Type = RangeRAM\<rparr>,
         \<lparr>Range = \<lparr>Start = 0x1000, Size = 0x1000\<rparr>, Type = RangeReserved\<rparr>])
   \<and> memoryMapFromEFI stable_sort
        [regular_file ''/m/1/end'' ''0x1fff'', regular_file ''/m/1/start'' ''0x1000'',
         regular_file ''/m/1/type'' ''Reserved'',
         regular_file ''/m/0/end'' ''0xfff'', regular_file ''/m/0/start'' ''0x0'',
         regular_file ''/m/0/type'' ''System RAM'']
        [''/m/1'', ''/m/0'']
      = Inr [\<lparr>Range = \<lparr>Start = 0, Size = 0x1000\<rparr>, Type = RangeRAM\<rparr>,
             \<lparr>Range = \<lparr>Start = 0x1000, Size = 0x1000\<rparr>, Type = RangeReserved\<rparr>]"
proof -
  let ?A = "[regular_file ''/m/0/end'' ''0xfff'', regular_file ''/m/0/start'' ''0x0'',
             regular_file ''/m/0/type'' ''System RAM'',
             regular_file ''/m/1/end'' ''0x1fff'', regular_file ''/m/1/start'' ''0x1000'',
             regular_file ''/m/1/type'' ''Reserved'']"
  let ?B = "[regular_file ''/m/1/end'' ''0x1fff'', regular_file ''/m/1/start'' ''0x1000'',
             regular_file ''/m/1/type'' ''Reserved'',
             regular_file ''/m/0/end'' ''0xfff'', regular_file ''/m/0/start'' ''0x0'',
             regular_file ''/m/0/type'' ''System RAM'']"
  let ?m = "[\<lparr>Range = \<lparr>Start = 0, Size = 0x1000\<rparr>, Type = RangeRAM\<rparr>,
             \<lparr>Range = \<lparr>Start = 0x1000, Size = 0x1000\<rparr>, Type = RangeReserved\<rparr>]"
  have p: "mset ?B = mset ?A"
    by (simp add: regular_file_def)
  have d: "distinct (map entry_key (filter (\<lambda>f. \<not> entry_IsDir f) ?A))"
    by (simp add: eval_efi)
  have r: "memoryMapFromEFI stable_sort ?A [''/m/0'', ''/m/1''] = Inr ?m"
    by (simp add: eval_efi)
  have i: "iteration_order (snd (efi_walk efi_init ?A)) [''/m/0'', ''/m/1'']"
    by (auto simp: eval_efi)
  have i': "iteration_order (snd (efi_walk efi_init ?B)) [''/m/1'', ''/m/0'']"
    by (auto simp: eval_efi)
  have s: "distinct (map start_of ?m)"
    by (simp add: start_of_def)
  show ?thesis
    using sorts_stable_sort p d r i i' s
      efi_order_insensitive [OF p d, where pdq = stable_sort and order = "[''/m/0'', ''/m/1'']"
        and order' = "[''/m/1'', ''/m/0'']" and m = ?m]
    by auto
qed

text \<open>
  C9 as stated fails: two directories of equal \<open>start\<close>, enumerated in either order, may
  come out in either order, since the sort looks at \<open>Start\<close> alone and Go fixes neither
  the order of the iteration over \<open>ranges\<close> nor the order of equal keys.
\<close>

theorem efi_equal_starts_counterexample:
  "mset [regular_file ''/m/1/end'' ''0x1ff'', regular_file ''/m/1/start'' ''0x0'',
         regular_file ''/m/1/type'' ''Reserved'',
         regular_file ''/m/0/end'' ''0xfff'', regular_file ''/m/0/start'' ''0x0'',
         regular_file ''/m/0/type'' ''System RAM'']
   = mset [regular_file ''/m/0/end'' ''0xfff'', regular_file ''/m/0/start'' ''0x0'',
           regular_file ''/m/0/type'' ''System RAM'',
           regular_file ''/m/1/end'' ''0x1ff'', regular_file ''/m/1/start'' ''0x0'',
           regular_file ''/m/1/type'' ''Reserved'']
   \<and> iteration_order (snd (efi_walk efi_init
        [regular_file ''/m/0/end'' ''0xfff'', regular_file ''/m/0/start'' ''0x0'',
         regular_file ''/m/0/type'' ''System RAM'',
         regular_file ''/m/1/end'' ''0x1ff'', regular_file ''/m/1/start'' ''0x0'',
         regular_file ''/m/1/type'' ''Reserved''])) [''/m/0'', ''/m/1'']
   \<and> iteration_order (snd (efi_walk efi_init
        [regular_file ''/m/1/end'' ''0x1ff'', regular_file ''/m/1/start'' ''0x0'',
         regular_file ''/m/1/type'' ''Reserved'',
         regular_file ''/m/0/end'' ''0xfff'', regular_file ''/m/0/start'' ''0x0'',
         regular_file ''/m/0/type'' ''System RAM''])) [''/m/1'', ''/m/0'']
   \<and> memoryMapFromEFI stable_sort
        [regular_file ''/m/0/end'' ''0xfff'', regular_file ''/m/0/start'' ''0x0'',
         regular_file ''/m/0/type'' ''System RAM'',
         regular_file ''/m/1/end'' ''0x1ff'', regular_file ''/m/1/start'' ''0x0'',
         regular_file ''/m/1/type'' ''Reserved'']
        [''/m/0'', ''/m/1'']
      = Inr [\<lparr>Range = \<lparr>Start = 0, Size = 0x1000\<rparr>, Type = RangeRAM\<rparr>,
             \<lparr>Range = \<lparr>Start = 0, Size = 0x200\<rparr>, Type = RangeReserved\<rparr>]
   \<and> memoryMapFromEFI stable_sort
        [regular_file ''/m/1/end'' ''0x1ff'', regular_file ''/m/1/start'' ''0x0'',
         regular_file ''/m/1/type'' ''Reserved'',
         regular_file ''/m/0/end'' ''0xfff'', regular_file ''/m/0/start'' ''0x0'',
         regular_file ''/m/0/type'' ''System RAM'']
        [''/m/1'', ''/m/0'']
      = Inr [\<lparr>Range = \<lparr>Start = 0, Size = 0x200\<rparr>, Type = RangeReserved\<rparr>,
             \<lparr>Range = \<lparr>Start = 0, Size = 0x1000\<rparr>, Type = RangeRAM\<rparr>]
   \<and> [\<lparr>Range = \<lparr>Start = 0, Size = 0x1000\<rparr>, Type = RangeRAM\<rparr>,
       \<lparr>Range = \<lparr>Start = 0, Size = 0x200\<rparr>, Type = RangeReserved\<rparr>]
      \<noteq> [\<lparr>Range = \<lparr>Start = 0, Size = 0x200\<rparr>, Type = RangeReserved\<rparr>,
         \<lparr>Range = \<lparr>Start = 0, Size = 0x1000\<rparr>, Type = RangeRAM\<rparr>]"
proof (intro conjI)
  show "mset [regular_file ''/m/1/end'' ''0x1ff'', regular_file ''/m/1/start'' ''0x0'',
         regular_file ''/m/1/type'' ''Reserved'',
         regular_file ''/m/0/end'' ''0xfff'', regular_file ''/m/0/start'' ''0x0'',
         regular_file ''/m/0/type'' ''System RAM'']
   = mset [regular_file ''/m/0/end'' ''0xfff'', regular_file ''/m/0/start'' ''0x0'',
           regular_file ''/m/0/type'' ''System RAM'',
           regular_file ''/m/1/end'' ''0x1ff'', regular_file ''/m/1/start'' ''0x0'',
           regular_file ''/m/1/type'' ''Reserved'']"
    by (simp add: regular_file_def)
qed (auto simp: eval_efi)

lemma set_field_unknown_type:
  assumes "sysfsToRangeType data = None"
  shows "set_field ''type'' data r = set_field ''type'' ''Reserved'' r"
  using assms by (simp add: set_field_def sysfsToRangeType_def)

lemma TrimSpace_Reserved: "TrimSpace ''Reserved'' = ''Reserved''"
  by (simp add: TrimSpace_def white_space_def space_width_def)

lemma walker_unknown_type:
  assumes "entry_err f = None" "\<not> entry_IsDir f" "path_Base (entry_name f) = ''type''"
    "entry_ReadFile f = Inr b" "sysfsToRangeType (TrimSpace b) = None"
  shows "walker st f =
           Inr (st\<lparr>ranges := (ranges st)(path_Dir (entry_name f) \<mapsto>
                       (case ranges st (path_Dir (entry_name f)) of
                          None \<Rightarrow> zero_memRange | Some r \<Rightarrow> r)\<lparr>rtyp := RangeReserved\<rparr>),
                    logged := logged st @ [(entry_name f, TrimSpace b)]\<rparr>)"
  using assms by (simp add: walker_def Let_def)

lemma entry_error_type_file:
  assumes "entry_err f = None" "\<not> entry_IsDir f" "path_Base (entry_name f) = ''type''"
    "entry_ReadFile f = Inr b"
  shows "entry_error f = None"
  using assms by (simp add: entry_error_def walker_def Let_def split: option.splits)

lemma record_entry_keeps_type:
  assumes "entry_IsDir g \<or> entry_key g \<noteq> (dir, ''type'')"
    "m dir = Some r"
  shows "\<exists>r'. record_entry g m dir = Some r' \<and> rtyp r' = rtyp r"
  using assms
  by (auto simp: record_entry_def set_field_def entry_key_def split: sum.splits option.splits)

lemma fold_record_entry_keeps_type:
  assumes "\<forall>g\<in>set gs. entry_IsDir g \<or> entry_key g \<noteq> (dir, ''type'')"
    "m dir = Some r"
  shows "\<exists>r'. fold record_entry gs m dir = Some r' \<and> rtyp r' = rtyp r"
  using assms
proof (induction gs arbitrary: m r)
  case Nil
  then show ?case by simp
next
  case (Cons g gs)
  from Cons.prems obtain r' where r': "record_entry g m dir = Some r'" "rtyp r' = rtyp r"
    using record_entry_keeps_type [of g dir m r] by auto
  from Cons.IH [of "record_entry g m" r'] Cons.prems(1) r' show ?case by auto
qed

lemma map_filter_member:
  assumes "x \<in> set xs" "g x = Some y"
  shows "y \<in> set (List.map_filter g xs)"
  using assms by (induction xs) (auto split: option.splits)

text \<open>
  C6. Let \<open>f\<close> be a file named \<open>type\<close> whose trimmed contents are not in the table
  \<open>sysfsToRangeType\<close>. The walker does not fail on \<open>f\<close>: it sets the type of the directory
  of \<open>f\<close> to \<open>Reserved\<close> and logs one line. The adapter returns what it returns when \<open>f\<close>
  holds the label \<open>Reserved\<close>, so the label never makes it fail. If the walk reaches \<open>f\<close>
  the line is in the log. And when the adapter succeeds, no directory presenting an
  attribute twice, the map holds the entry of the directory of \<open>f\<close> with type
  \<open>Reserved\<close>.
\<close>

theorem unrecognized_type_defaults_to_Reserved:
  assumes "entry_err f = None" "\<not> entry_IsDir f" "path_Base (entry_name f) = ''type''"
    "entry_ReadFile f = Inr b" "sysfsToRangeType (TrimSpace b) = None"
  shows "(\<exists>st'. walker st f = Inr st'
            \<and> logged st' = logged st @ [(entry_name f, TrimSpace b)]
            \<and> (\<exists>r. ranges st' (path_Dir (entry_name f)) = Some r \<and> rtyp r = RangeReserved))
       \<and> memoryMapFromEFI pdq (before @ f # after) order
           = memoryMapFromEFI pdq (before @ f\<lparr>entry_ReadFile := Inr ''Reserved''\<rparr> # after) order
       \<and> (fst (efi_walk efi_init before) = None
           \<longrightarrow> (entry_name f, TrimSpace b) \<in> set (efi_log (before @ f # after)))
       \<and> (sorts pdq \<and> memoryMapFromEFI pdq (before @ f # after) order = Inr mm
           \<and> iteration_order (snd (efi_walk efi_init (before @ f # after))) order
           \<and> distinct (map entry_key (filter (\<lambda>g. \<not> entry_IsDir g) (before @ f # after)))
          \<longrightarrow> (\<exists>r. ranges (snd (efi_walk efi_init (before @ f # after))) (path_Dir (entry_name f))
                      = Some r
                   \<and> rtyp r = RangeReserved \<and> typed_of_memRange r \<in> set mm
                   \<and> Type (typed_of_memRange r) = RangeReserved))"
proof (intro conjI impI)
  show "\<exists>st'. walker st f = Inr st'
            \<and> logged st' = logged st @ [(entry_name f, TrimSpace b)]
            \<and> (\<exists>r. ranges st' (path_Dir (entry_name f)) = Some r \<and> rtyp r = RangeReserved)"
    by (simp add: walker_unknown_type [OF assms])
next
  let ?f' = "f\<lparr>entry_ReadFile := Inr ''Reserved''\<rparr>"
  have e: "entry_error f = None" "entry_error ?f' = None"
    using assms by (simp_all add: entry_error_type_file)
  have "record_entry ?f' = record_entry f"
    using assms
    by (simp add: fun_eq_iff record_entry_def TrimSpace_Reserved set_field_unknown_type)
  then have "fold record_entry (before @ ?f' # after) = fold record_entry (before @ f # after)"
    by simp
  moreover have "first_error (before @ ?f' # after) = first_error (before @ f # after)"
    using e by (simp add: first_error_append split: option.splits)
  ultimately show "memoryMapFromEFI pdq (before @ f # after) order
           = memoryMapFromEFI pdq (before @ ?f' # after) order"
    by (simp only: memoryMapFromEFI_eq)
next
  assume "fst (efi_walk efi_init before) = None"
  then obtain s1 where s1: "efi_walk efi_init before = (None, s1)"
    by (cases "efi_walk efi_init before") auto
  obtain s2 where s2: "walker s1 f = Inr s2" "(entry_name f, TrimSpace b) \<in> set (logged s2)"
    using walker_unknown_type [OF assms, of s1] by simp
  have "efi_walk efi_init (before @ f # after) = efi_walk s2 after"
    using s1 s2 by (simp add: efi_walk_append)
  then show "(entry_name f, TrimSpace b) \<in> set (efi_log (before @ f # after))"
    using s2(2) efi_walk_logged [of s2 after] by (auto simp: efi_log_def)
next
  assume a: "sorts pdq \<and> memoryMapFromEFI pdq (before @ f # after) order = Inr mm
           \<and> iteration_order (snd (efi_walk efi_init (before @ f # after))) order
           \<and> distinct (map entry_key (filter (\<lambda>g. \<not> entry_IsDir g) (before @ f # after)))"
  let ?fs = "before @ f # after"
  let ?dir = "path_Dir (entry_name f)"
  from a have ok: "first_error ?fs = None"
    by (auto simp: memoryMapFromEFI_eq split: option.splits)
  have R: "ranges (snd (efi_walk efi_init ?fs)) = fold record_entry ?fs Map.empty"
    using efi_walk_ranges [OF ok, of efi_init] by (simp add: efi_init_def)
  have k: "entry_key f = (?dir, ''type'')"
    using assms by (simp add: entry_key_def)
  have later: "\<forall>g\<in>set after. entry_IsDir g \<or> entry_key g \<noteq> (?dir, ''type'')"
  proof
    fix g assume g: "g \<in> set after"
    show "entry_IsDir g \<or> entry_key g \<noteq> (?dir, ''type'')"
    proof (rule ccontr)
      assume "\<not> (entry_IsDir g \<or> entry_key g \<noteq> (?dir, ''type''))"
      then have "\<not> entry_IsDir g" "entry_key g = entry_key f" using k by auto
      moreover from a have "distinct (map entry_key (f # filter (\<lambda>g. \<not> entry_IsDir g) after))"
        using assms(2) by simp
      ultimately show False using g by (auto simp: image_iff)
    qed
  qed
  let ?m1 = "record_entry f (fold record_entry before Map.empty)"
  have "\<exists>r. ?m1 ?dir = Some r \<and> rtyp r = RangeReserved"
    using assms by (simp add: record_entry_def set_field_def)
  then obtain r1 where r1: "?m1 ?dir = Some r1" "rtyp r1 = RangeReserved" by auto
  obtain r where r: "fold record_entry ?fs Map.empty ?dir = Some r" "rtyp r = RangeReserved"
    using fold_record_entry_keeps_type [of after ?dir ?m1 r1] later r1 by auto
  from a have "?dir \<in> set order"
    using r(1) R by (auto simp: iteration_order_def)
  moreover have "mm = sort_map pdq (List.map_filter
      (\<lambda>dir. map_option typed_of_memRange (fold record_entry ?fs Map.empty dir)) order)"
    using a ok by (simp add: memoryMapFromEFI_eq)
  ultimately have "typed_of_memRange r \<in> set mm"
    using r(1) map_filter_member [of ?dir order _ "typed_of_memRange r"]
    using a by (simp add: sort_map_set)
  then show "\<exists>r. ranges (snd (efi_walk efi_init ?fs)) ?dir = Some r
                   \<and> rtyp r = RangeReserved \<and> typed_of_memRange r \<in> set mm
                   \<and> Type (typed_of_memRange r) = RangeReserved"
    using r R by (simp add: typed_of_memRange_def)
qed

theorem unrecognized_type_defaults_to_Reserved_witness:
  "sorts stable_sort
   \<and> entry_err (regular_file ''/m/0/type'' ''Bogus'') = None
   \<and> \<not> entry_IsDir (regular_file ''/m/0/type'' ''Bogus'')
   \<and> path_Base (entry_name (regular_file ''/m/0/type'' ''Bogus'')) = ''type''
   \<and> entry_ReadFile (regular_file ''/m/0/type'' ''Bogus'') = Inr ''Bogus''
   \<and> sysfsToRangeType (TrimSpace ''Bogus'') = None
   \<and> fst (efi_walk efi_init
        [directory ''/m'', directory ''/m/0'', regular_file ''/m/0/end'' ''0x1ff'',
         regular_file ''/m/0/start'' ''0x100'']) = None
   \<and> iteration_order (snd (efi_walk efi_init
        [directory ''/m'', directory ''/m/0'', regular_file ''/m/0/end'' ''0x1ff'',
         regular_file ''/m/0/start'' ''0x100'', regular_file ''/m/0/type'' ''Bogus'']))
        [''/m/0'']
   \<and> distinct (map entry_key (filter (\<lambda>g. \<not> entry_IsDir g)
        [directory ''/m'', directory ''/m/0'', regular_file ''/m/0/end'' ''0x1ff'',
         regular_file ''/m/0/start'' ''0x100'', regular_file ''/m/0/type'' ''Bogus'']))
   \<and> memoryMapFromEFI stable_sort
        [directory ''/m'', directory ''/m/0'', regular_file ''/m/0/end'' ''0x1ff'',
         regular_file ''/m/0/start'' ''0x100'', regular_file ''/m/0/type'' ''Bogus'']
        [''/m/0'']
      = Inr [\<lparr>Range = \<lparr>Start = 0x100, Size = 0x100\<rparr>, Type = RangeReserved\<rparr>]
   \<and> (''/m/0/type'', ''Bogus'') \<in> set (efi_log
        [directory ''/m'', directory ''/m/0'', regular_file ''/m/0/end'' ''0x1ff'',
         regular_file ''/m/0/start'' ''0x100'', regular_file ''/m/0/type'' ''Bogus''])
   \<and> (\<exists>r. typed_of_memRange r \<in> set [\<lparr>Range = \<lparr>Start = 0x100, Size = 0x100\<rparr>, Type = RangeReserved\<rparr>]
          \<and> Type (typed_of_memRange r) = RangeReserved)"
proof -
  let ?f = "regular_file ''/m/0/type'' ''Bogus''"
  let ?before = "[directory ''/m'', directory ''/m/0'', regular_file ''/m/0/end'' ''0x1ff'',
                  regular_file ''/m/0/start'' ''0x100'']"
  let ?mm = "[\<lparr>Range = \<lparr>Start = 0x100, Size = 0x100\<rparr>, Type = RangeReserved\<rparr>]"
  have h1: "entry_err ?f = None" and h2: "\<not> entry_IsDir ?f"
    and h4: "entry_ReadFile ?f = Inr ''Bogus''"
    by (simp_all add: regular_file_def)
  have h3: "path_Base (entry_name ?f) = ''type''"
    by (simp add: regular_file_def path_Base_def)
  have h5: "sysfsToRangeType (TrimSpace ''Bogus'') = None"
    by (simp add: eval_efi)
  have b: "fst (efi_walk efi_init ?before) = None"
    by (simp add: directory_def eval_efi)
  have i: "iteration_order (snd (efi_walk efi_init (?before @ ?f # []))) [''/m/0'']"
    by (simp add: directory_def eval_efi)
  have d: "distinct (map entry_key (filter (\<lambda>g. \<not> entry_IsDir g) (?before @ ?f # [])))"
    by (simp add: directory_def eval_efi)
  have r: "memoryMapFromEFI stable_sort (?before @ ?f # []) [''/m/0''] = Inr ?mm"
    by (simp add: directory_def eval_efi)
  note T = unrecognized_type_defaults_to_Reserved [OF h1 h2 h3 h4 h5, where st = efi_init
      and pdq = stable_sort and before = ?before and after = "[]" and order = "[''/m/0'']"
      and mm = ?mm]
  have n: "entry_name ?f = ''/m/0/type''" "TrimSpace ''Bogus'' = ''Bogus''"
    by (simp_all add: eval_efi)
  from T b have w: "(entry_name ?f, TrimSpace ''Bogus'') \<in> set (efi_log (?before @ ?f # []))"
    by blast
  from T sorts_stable_sort r i d have e: "\<exists>r. typed_of_memRange r \<in> set ?mm
      \<and> Type (typed_of_memRange r) = RangeReserved"
    by blast
  show ?thesis
    using sorts_stable_sort h1 h2 h3 h4 h5 b i d r w e unfolding n by simp
qed

subsection \<open>The device tree\<close>























end
